theory Spec2Isabelle
  imports Main "HOL-Library.FSet"
begin

section \<open>Data model of \<open>template_robustness/algorithm.py\<close>\<close>

text \<open>
  The three enumerations of the module. \<open>IsolationLevel\<close> carries the values 1, 2, 3 in
  the source; \<open>level_value\<close> gives them, and with them the order RC < SI < SSI. The members
  \<open>Conn.O\<close>, \<open>Conn.P\<close>, \<open>Conn.N\<close> are written \<open>Conn_O\<close>, \<open>Conn_P\<close>, \<open>Conn_N\<close>.
\<close>

datatype IsolationLevel = READ_COMMITTED | SNAPSHOT_ISOLATION | SERIALIZABLE

datatype Conn = Conn_O | Conn_P | Conn_N

datatype InOut = IN | OUT

fun level_value :: "IsolationLevel \<Rightarrow> nat" where
  "level_value READ_COMMITTED = 1"
| "level_value SNAPSHOT_ISOLATION = 2"
| "level_value SERIALIZABLE = 3"

text \<open>
  \<open>Operation\<close> is a frozen dataclass with structural equality; its read and write sets are
  frozensets of attribute names, hence finite sets.
\<close>

record Operation =
  variable :: string
  relation :: string
  readset :: "string fset"
  writeset :: "string fset"

definition is_rw_conflicting :: "Operation \<Rightarrow> Operation \<Rightarrow> bool" where
  "is_rw_conflicting self other \<longleftrightarrow>
     relation self = relation other \<and> 0 < fcard (readset self |\<inter>| writeset other)"

definition is_wr_conflicting :: "Operation \<Rightarrow> Operation \<Rightarrow> bool" where
  "is_wr_conflicting self other \<longleftrightarrow>
     relation self = relation other \<and> 0 < fcard (writeset self |\<inter>| readset other)"

definition is_ww_conflicting :: "Operation \<Rightarrow> Operation \<Rightarrow> bool" where
  "is_ww_conflicting self other \<longleftrightarrow>
     relation self = relation other \<and> 0 < fcard (writeset self |\<inter>| writeset other)"

definition is_conflicting :: "Operation \<Rightarrow> Operation \<Rightarrow> bool" where
  "is_conflicting self other \<longleftrightarrow>
     is_rw_conflicting self other \<or> is_wr_conflicting self other \<or> is_ww_conflicting self other"

text \<open>
  \<open>Template\<close> is a frozen dataclass whose field \<open>operations\<close> is declared with
  \<open>compare=False\<close>: two templates are equal, and hash alike, when their names are equal.
  Every \<open>==\<close> on templates and every use of a template as a dictionary key is therefore
  written on \<open>name\<close>.
\<close>

record Template =
  name :: string
  operations :: "Operation list"

text \<open>
  \<open>TemplateSet.templates\<close> is a Python set. The list is that set in the order in which
  the set iterates; a set holds no two equal templates, so the names of a well-formed
  template set are distinct.
\<close>

record TemplateSet =
  templates :: "Template list"

text \<open>The dictionary \<open>mapping\<close> is keyed by templates, that is, by their names.\<close>

record Allocation =
  templateset :: TemplateSet
  mapping :: "string \<rightharpoonup> IsolationLevel"

record GraphNode =
  template :: Template
  operation :: Operation
  conn :: Conn
  k :: InOut

text \<open>Equality of the frozen dataclass \<open>GraphNode\<close>: field by field, the template by name.\<close>

definition GraphNode_eq :: "GraphNode \<Rightarrow> GraphNode \<Rightarrow> bool" where
  "GraphNode_eq n m \<longleftrightarrow>
     name (template n) = name (template m) \<and> operation n = operation m \<and>
     conn n = conn m \<and> k n = k m"

text \<open>
  A \<open>networkx.Graph\<close> as the calls of this module build it: the nodes in the order of
  their first insertion, and the pairs handed to \<open>add_edge\<close> in the order of the calls.
\<close>

record Graph =
  nodes :: "GraphNode list"
  edge_calls :: "(GraphNode \<times> GraphNode) list"

text \<open>The dictionary that \<open>is_robust\<close> returns beside \<open>False\<close>, one field per key.\<close>

record Witness =
  w_t1 :: Template
  w_o1 :: Operation
  w_p1 :: Operation
  w_h :: int
  w_t2 :: Template
  w_o2 :: Operation
  w_p2 :: Operation
  w_co2 :: Conn
  w_tn :: Template
  w_on :: Operation
  w_pn :: Operation
  w_cpn :: Conn

text \<open>
  What the module takes from the Python runtime and from networkx, neither of which is
  part of the repository: the order in which a freshly built set iterates (the argument is
  the list of elements in the order of their insertion), the reflexive transitive closure
  \<open>nx.transitive_closure(g, reflexive=True)\<close>, and the pairs that the edge view
  \<open>g.edges\<close> yields.
\<close>

record Runtime =
  iter_template_ops :: "(Template \<times> Operation \<times> Operation) list \<Rightarrow> (Template \<times> Operation \<times> Operation) list"
  iter_template_op :: "(Template \<times> Operation) list \<Rightarrow> (Template \<times> Operation) list"
  iter_h :: "int list \<Rightarrow> int list"
  iter_conn :: "Conn list \<Rightarrow> Conn list"
  transitive_closure :: "Graph \<Rightarrow> Graph"
  edges :: "Graph \<Rightarrow> (GraphNode \<times> GraphNode) list"

text \<open>Iterating a set yields each of its elements once, and nothing else.\<close>

definition wf_runtime :: "Runtime \<Rightarrow> bool" where
  "wf_runtime rt \<longleftrightarrow>
     (\<forall>xs. set (iter_template_ops rt xs) = set xs \<and> distinct (iter_template_ops rt xs)) \<and>
     (\<forall>xs. set (iter_template_op rt xs) = set xs \<and> distinct (iter_template_op rt xs)) \<and>
     (\<forall>xs. set (iter_h rt xs) = set xs \<and> distinct (iter_h rt xs)) \<and>
     (\<forall>xs. set (iter_conn rt xs) = set xs \<and> distinct (iter_conn rt xs))"

section \<open>Errors\<close>

text \<open>
  The two exceptions the module can raise: the failed \<open>assert\<close> of
  \<open>get_connectedness\<close> and the \<open>KeyError\<close> of \<open>alloc.mapping[t]\<close>.
\<close>

datatype error = AssertionError | KeyError

definition bind_err :: "error + 'a \<Rightarrow> ('a \<Rightarrow> error + 'b) \<Rightarrow> error + 'b" where
  "bind_err m f = (case m of Inl e \<Rightarrow> Inl e | Inr v \<Rightarrow> f v)"

definition lookup :: "Allocation \<Rightarrow> Template \<Rightarrow> error + IsolationLevel" where
  "lookup alloc t = (case mapping alloc (name t) of None \<Rightarrow> Inl KeyError | Some l \<Rightarrow> Inr l)"

section \<open>Connectedness\<close>

text \<open>
  \<open>get_connectedness\<close>, with its closing \<open>assert\<close> as the error branch. The parameters
  \<open>o\<close> and \<open>p\<close> of the source are \<open>op_o\<close> and \<open>op_p\<close> here.
\<close>

definition get_connectedness ::
  "Operation \<Rightarrow> Operation \<Rightarrow> Conn \<Rightarrow> Operation \<Rightarrow> Conn \<Rightarrow> int \<Rightarrow> error + Conn set" where
  "get_connectedness target_op op_o co op_p cp h =
     (let result = {};
          result = (if variable target_op = variable op_o then insert co result else result);
          result = (if variable target_op = variable op_p then insert cp result else result);
          result = (if card result = 0 then {Conn_N} else result);
          result = (if h = 1
                    then (let result = (if Conn_O \<in> result then insert Conn_P result else result)
                          in (if Conn_P \<in> result then insert Conn_O result else result))
                    else result)
      in if (h = 1 \<and> (result = {Conn_N} \<or> result = {Conn_O, Conn_P})) \<or>
            (h = 2 \<and> (result = {Conn_N} \<or> result = {Conn_O} \<or> result = {Conn_P}))
         then Inr result
         else Inl AssertionError)"

section \<open>The pt-conflict-graph\<close>

text \<open>
  \<open>is_node_valid\<close>: the two nested loops return \<open>False\<close> at the first conflicting pair and
  \<open>True\<close> when none is found.
\<close>

definition is_node_valid :: "GraphNode \<Rightarrow> Operation \<Rightarrow> Operation \<Rightarrow> Template \<Rightarrow> bool" where
  "is_node_valid node o1 p1 t1 =
     (if conn node = Conn_N then True
      else list_all (\<lambda>op1.
             if (variable op1 = variable o1 \<and> conn node = Conn_O) \<or>
                (variable op1 = variable p1 \<and> conn node = Conn_P)
             then list_all (\<lambda>op. \<not> (variable op = variable (operation node) \<and> is_conflicting op1 op))
                    (operations (template node))
             else True) (operations t1))"

definition is_edge_valid :: "GraphNode \<Rightarrow> GraphNode \<Rightarrow> int \<Rightarrow> bool" where
  "is_edge_valid node1 node2 h =
     (if k node1 = OUT \<and> k node2 = IN then
        (if conn node1 = conn node2 \<and> is_conflicting (operation node1) (operation node2)
         then True else False)
      else if k node1 = IN \<and> k node2 = OUT \<and> name (template node1) = name (template node2) then
        (if variable (operation node1) \<noteq> variable (operation node2) \<and>
            (conn node1, conn node2) \<in> set [(Conn_O, Conn_P), (Conn_O, Conn_N),
                                             (Conn_N, Conn_N), (Conn_N, Conn_P)]
         then True
         else if variable (operation node1) = variable (operation node2) \<and> conn node1 = conn node2
         then True
         else if variable (operation node1) = variable (operation node2) \<and>
                 conn node1 = Conn_O \<and> conn node2 = Conn_P \<and> h = 1
         then True
         else False)
      else False)"

text \<open>\<open>graph.add_node\<close>: a node equal to one already present is not added again.\<close>

definition add_node :: "Graph \<Rightarrow> GraphNode \<Rightarrow> Graph" where
  "add_node graph node =
     (if list_ex (\<lambda>m. GraphNode_eq m node) (nodes graph) then graph
      else graph\<lparr>nodes := nodes graph @ [node]\<rparr>)"

definition add_edge :: "Graph \<Rightarrow> GraphNode \<Rightarrow> GraphNode \<Rightarrow> Graph" where
  "add_edge graph node1 node2 = graph\<lparr>edge_calls := edge_calls graph @ [(node1, node2)]\<rparr>"

text \<open>
  \<open>pt_conflict_graph\<close>: the candidate nodes in the order of the four nested loops
  (\<open>for c in Conn\<close> runs O, P, N and \<open>for k in InOut\<close> runs IN, OUT), then one
  \<open>add_edge\<close> for every ordered pair of nodes that \<open>is_edge_valid\<close> accepts.
\<close>

definition pt_conflict_graph ::
  "Operation \<Rightarrow> Operation \<Rightarrow> Template \<Rightarrow> int \<Rightarrow> TemplateSet \<Rightarrow> Graph" where
  "pt_conflict_graph o1 p1 t1 h template_set =
     (let graph = \<lparr>nodes = [], edge_calls = []\<rparr>;
          graph = fold (\<lambda>node g. if is_node_valid node o1 p1 t1 then add_node g node else g)
                    (concat (map (\<lambda>t. concat (map (\<lambda>op. concat (map (\<lambda>c. map (\<lambda>io.
                        \<lparr>template = t, operation = op, conn = c, k = io\<rparr>) [IN, OUT])
                      [Conn_O, Conn_P, Conn_N])) (operations t))) (templates template_set)))
                    graph
      in fold (\<lambda>(node1, node2) g. if is_edge_valid node1 node2 h then add_edge g node1 node2 else g)
           (List.product (nodes graph) (nodes graph)) graph)"

section \<open>Reachability\<close>

text \<open>
  \<open>reachable\<close>. The loop over \<open>rtc.edges\<close> returns \<open>True\<close> at the first pair that passes
  the test; \<open>edges rt rtc\<close> is the list of pairs that the edge view yields.
\<close>

definition reachable ::
  "Runtime \<Rightarrow> Template \<Rightarrow> Operation \<Rightarrow> Operation \<Rightarrow> Conn \<Rightarrow>
   Template \<Rightarrow> Operation \<Rightarrow> Operation \<Rightarrow> Conn \<Rightarrow> int \<Rightarrow> Graph \<Rightarrow> bool" where
  "reachable rt t2 o2 p2 co2 tn on pn cpn h rtc =
     (if name t2 = name tn \<and> o2 = on \<and> p2 = pn \<and>
         ((co2 = Conn_P \<and> cpn = Conn_O) \<or> (h = 1 \<and> co2 = Conn_O \<and> cpn = Conn_P))
      then True
      else if is_conflicting o2 pn \<and>
         (co2 = cpn \<or> (h = 1 \<and> co2 = Conn_O \<and> cpn = Conn_P))
      then True
      else list_ex (\<lambda>(nstart, nstop).
             k nstart = IN \<and> k nstop = OUT \<and>
             is_conflicting (operation nstart) o2 \<and> is_conflicting (operation nstop) pn \<and>
             conn nstart = co2 \<and> conn nstop = cpn) (edges rt rtc))"

section \<open>Cycle validity\<close>

text \<open>
  The inner loop that \<open>is_valid_cycle\<close> runs four times, with a different conflict test
  \<open>confl\<close> each time: over the operations of the other template, it looks for one that
  conflicts with \<open>op1\<close> and shares a connectedness label with it. \<open>Inr True\<close> is the
  branch marked \<open># Connected!\<close>, where the source returns \<open>False\<close>.
\<close>

fun connected_conflict ::
  "(Operation \<Rightarrow> Operation \<Rightarrow> bool) \<Rightarrow> Operation \<Rightarrow> Conn set \<Rightarrow> Operation list \<Rightarrow>
   Operation \<Rightarrow> Conn \<Rightarrow> Operation \<Rightarrow> Conn \<Rightarrow> int \<Rightarrow> error + bool" where
  "connected_conflict confl op1 op1_conns [] op_o co op_p cp h = Inr False"
| "connected_conflict confl op1 op1_conns (op2 # ops) op_o co op_p cp h =
     (if confl op1 op2 then
        bind_err (get_connectedness op2 op_o co op_p cp h) (\<lambda>op2_conns.
          if 0 < card (op1_conns \<inter> op2_conns) then Inr True
          else connected_conflict confl op1 op1_conns ops op_o co op_p cp h)
      else connected_conflict confl op1 op1_conns ops op_o co op_p cp h)"

text \<open>
  Conditions (2) and (3): the first loop of \<open>is_valid_cycle\<close> over the operations of
  \<open>t1\<close>. \<open>Inr False\<close> is a \<open>return False\<close>, \<open>Inr True\<close> the end of the loop, by exhaustion
  or by the \<open>break\<close> at \<open>o1\<close> under READ_COMMITTED. The allocation is read only when
  \<open>op1 == o1\<close>.
\<close>

fun ww_scan ::
  "Operation list \<Rightarrow> Template \<Rightarrow> Operation \<Rightarrow> Operation \<Rightarrow>
   Template \<Rightarrow> Operation \<Rightarrow> Operation \<Rightarrow> Conn \<Rightarrow>
   Template \<Rightarrow> Operation \<Rightarrow> Operation \<Rightarrow> Conn \<Rightarrow> int \<Rightarrow> Allocation \<Rightarrow> error + bool" where
  "ww_scan [] t1 o1 p1 t2 o2 p2 co2 tn on pn cpn h alloc = Inr True"
| "ww_scan (op1 # ops) t1 o1 p1 t2 o2 p2 co2 tn on pn cpn h alloc =
     bind_err (get_connectedness op1 o1 Conn_O p1 Conn_P h) (\<lambda>op1_conns.
     bind_err (if Conn_N \<notin> op1_conns then
                 bind_err (connected_conflict is_ww_conflicting op1 op1_conns (operations t2)
                             o2 co2 p2 Conn_O h) (\<lambda>found.
                   if found then Inr True
                   else connected_conflict is_ww_conflicting op1 op1_conns (operations tn)
                          on Conn_P pn cpn h)
               else Inr False) (\<lambda>found.
     if found then Inr False
     else if op1 = o1 then
       bind_err (lookup alloc t1) (\<lambda>l1.
         if l1 = READ_COMMITTED then Inr True
         else ww_scan ops t1 o1 p1 t2 o2 p2 co2 tn on pn cpn h alloc)
     else ww_scan ops t1 o1 p1 t2 o2 p2 co2 tn on pn cpn h alloc))"

text \<open>
  The scan of condition (5): \<open>True\<close> when the loop meets \<open>p1\<close> (where the source returns
  \<open>False\<close>), \<open>False\<close> when it meets \<open>o1\<close> first or runs out.
\<close>

fun p1_before_o1 :: "Operation list \<Rightarrow> Operation \<Rightarrow> Operation \<Rightarrow> bool" where
  "p1_before_o1 [] o1 p1 = False"
| "p1_before_o1 (op # ops) o1 p1 =
     (if op = p1 then True else if op = o1 then False else p1_before_o1 ops o1 p1)"

text \<open>Condition (5) as a whole; \<open>Inr False\<close> is a \<open>return False\<close>.\<close>

definition condition5 ::
  "Template \<Rightarrow> Operation \<Rightarrow> Operation \<Rightarrow> Operation \<Rightarrow> Allocation \<Rightarrow> error + bool" where
  "condition5 t1 o1 p1 on alloc =
     (if \<not> is_rw_conflicting on p1 then
        bind_err (lookup alloc t1) (\<lambda>l1.
          if l1 \<noteq> READ_COMMITTED then Inr False
          else if p1_before_o1 (operations t1) o1 p1 then Inr False
          else Inr True)
      else Inr True)"

text \<open>
  The guards of conditions (6), (7) and (8): a chain of \<open>and\<close>, so the allocation of a
  template is read only when those before it are SERIALIZABLE.
\<close>

fun all_serializable :: "Allocation \<Rightarrow> Template list \<Rightarrow> error + bool" where
  "all_serializable alloc [] = Inr True"
| "all_serializable alloc (t # ts) =
     bind_err (lookup alloc t) (\<lambda>l.
       if l = SERIALIZABLE then all_serializable alloc ts else Inr False)"

text \<open>
  The loops of conditions (7) and (8): for every operation of \<open>t1\<close>, the inner loop over
  the operations of the other template. \<open>Inr True\<close> is a \<open>return False\<close> of the source.
\<close>

fun ssi_scan ::
  "(Operation \<Rightarrow> Operation \<Rightarrow> bool) \<Rightarrow> Operation list \<Rightarrow> Operation \<Rightarrow> Operation \<Rightarrow>
   Operation list \<Rightarrow> Operation \<Rightarrow> Conn \<Rightarrow> Operation \<Rightarrow> Conn \<Rightarrow> int \<Rightarrow> error + bool" where
  "ssi_scan confl [] o1 p1 ops2 op_o co op_p cp h = Inr False"
| "ssi_scan confl (op1 # ops) o1 p1 ops2 op_o co op_p cp h =
     bind_err (get_connectedness op1 o1 Conn_O p1 Conn_P h) (\<lambda>op1_conns.
     bind_err (connected_conflict confl op1 op1_conns ops2 op_o co op_p cp h) (\<lambda>found.
       if found then Inr True
       else ssi_scan confl ops o1 p1 ops2 op_o co op_p cp h))"

definition is_valid_cycle ::
  "Template \<Rightarrow> Operation \<Rightarrow> Operation \<Rightarrow> Template \<Rightarrow> Operation \<Rightarrow> Operation \<Rightarrow> Conn \<Rightarrow>
   Template \<Rightarrow> Operation \<Rightarrow> Operation \<Rightarrow> Conn \<Rightarrow> int \<Rightarrow> Allocation \<Rightarrow> error + bool" where
  "is_valid_cycle t1 o1 p1 t2 o2 p2 co2 tn on pn cpn h alloc =
     bind_err (ww_scan (operations t1) t1 o1 p1 t2 o2 p2 co2 tn on pn cpn h alloc) (\<lambda>pass23.
     if \<not> pass23 then Inr False
     else if \<not> is_rw_conflicting o1 p2 then Inr False
     else
     bind_err (condition5 t1 o1 p1 on alloc) (\<lambda>pass5.
     if \<not> pass5 then Inr False
     else
     bind_err (all_serializable alloc [t1, t2, tn]) (\<lambda>all3.
     if all3 then Inr False
     else
     bind_err (all_serializable alloc [t1, t2]) (\<lambda>both12.
     bind_err (if both12
               then ssi_scan is_wr_conflicting (operations t1) o1 p1 (operations t2)
                      o2 co2 p2 Conn_O h
               else Inr False) (\<lambda>found7.
     if found7 then Inr False
     else
     bind_err (all_serializable alloc [t1, tn]) (\<lambda>both1n.
     bind_err (if both1n
               then ssi_scan is_rw_conflicting (operations t1) o1 p1 (operations tn)
                      on Conn_P pn cpn h
               else Inr False) (\<lambda>found8.
     if found8 then Inr False
     else Inr True)))))))"

section \<open>The robustness oracle\<close>

text \<open>
  A \<open>for\<close> loop whose body may return from the enclosing function (\<open>Inr (Some r)\<close>),
  raise (\<open>Inl e\<close>) or fall through to the next element (\<open>Inr None\<close>).
\<close>

fun for_loop :: "'a list \<Rightarrow> ('a \<Rightarrow> error + 'r option) \<Rightarrow> error + 'r option" where
  "for_loop [] body = Inr None"
| "for_loop (x # xs) body =
     (case body x of
        Inl e \<Rightarrow> Inl e
      | Inr (Some r) \<Rightarrow> Inr (Some r)
      | Inr None \<Rightarrow> for_loop xs body)"

text \<open>The set comprehension \<open>{(t, p) for t in template_set.templates for p in t.operations}\<close>.\<close>

definition template_op_pairs :: "TemplateSet \<Rightarrow> (Template \<times> Operation) list" where
  "template_op_pairs template_set =
     concat (map (\<lambda>t. map (\<lambda>p. (t, p)) (operations t)) (templates template_set))"

text \<open>
  \<open>is_robust\<close>. The seven nested loops, a \<open>continue\<close> as \<open>Inr None\<close>; the empty
  dictionary returned beside \<open>True\<close> is \<open>None\<close>.
\<close>

definition is_robust :: "Runtime \<Rightarrow> TemplateSet \<Rightarrow> Allocation \<Rightarrow> error + (bool \<times> Witness option)" where
  "is_robust rt template_set alloc =
     (let template_ops = iter_template_ops rt
            (concat (map (\<lambda>t. map (\<lambda>(o1, p1). (t, o1, p1))
                                (List.product (operations t) (operations t)))
                      (templates template_set)))
      in
      case
        for_loop template_ops (\<lambda>(t1, o1, p1).
          let h_options = (if variable o1 = variable p1 then [1] else [1, 2]) in
          for_loop (iter_h rt h_options) (\<lambda>h.
            let pt_graph = pt_conflict_graph o1 p1 t1 h template_set;
                rtc = transitive_closure rt pt_graph in
            for_loop (iter_template_op rt (template_op_pairs template_set)) (\<lambda>(t2, p2).
              if \<not> is_rw_conflicting o1 p2 then Inr None
              else
              for_loop (operations t2) (\<lambda>o2.
                for_loop (iter_template_op rt (template_op_pairs template_set)) (\<lambda>(tn, on).
                  if \<not> is_conflicting on p1 then Inr None
                  else
                  for_loop (operations tn) (\<lambda>pn.
                    let co2_options = (if variable o2 = variable p2 then [Conn_O]
                                       else [Conn_N, Conn_P]);
                        cpn_options = (if variable on = variable pn then [Conn_P]
                                       else [Conn_N, Conn_O]) in
                    for_loop (List.product (iter_conn rt co2_options) (iter_conn rt cpn_options))
                      (\<lambda>(co2, cpn).
                        bind_err (is_valid_cycle t1 o1 p1 t2 o2 p2 co2 tn on pn cpn h alloc)
                          (\<lambda>valid.
                            if valid \<and> reachable rt t2 o2 p2 co2 tn on pn cpn h rtc
                            then Inr (Some \<lparr>w_t1 = t1, w_o1 = o1, w_p1 = p1, w_h = h,
                                             w_t2 = t2, w_o2 = o2, w_p2 = p2, w_co2 = co2,
                                             w_tn = tn, w_on = on, w_pn = pn, w_cpn = cpn\<rparr>)
                            else Inr None))))))))
      of
        Inl e \<Rightarrow> Inl e
      | Inr (Some w) \<Rightarrow> Inr (False, Some w)
      | Inr None \<Rightarrow> Inr (True, None))"

section \<open>The greedy optimizer\<close>

definition set_level :: "Allocation \<Rightarrow> Template \<Rightarrow> IsolationLevel \<Rightarrow> Allocation" where
  "set_level alloc t l = alloc\<lparr>mapping := (mapping alloc)(name t \<mapsto> l)\<rparr>"

text \<open>The loop of \<open>optimal_alloc\<close> over the templates, the allocation passed along.\<close>

fun optimal_loop :: "Runtime \<Rightarrow> TemplateSet \<Rightarrow> Template list \<Rightarrow> Allocation \<Rightarrow> error + Allocation" where
  "optimal_loop rt template_set [] alloc = Inr alloc"
| "optimal_loop rt template_set (t # ts) alloc =
     (let alloc = set_level alloc t SNAPSHOT_ISOLATION in
      bind_err (is_robust rt template_set alloc) (\<lambda>r.
        if \<not> fst r then
          optimal_loop rt template_set ts (set_level alloc t SERIALIZABLE)
        else
          (let alloc = set_level alloc t READ_COMMITTED in
           bind_err (is_robust rt template_set alloc) (\<lambda>r.
             if \<not> fst r then
               optimal_loop rt template_set ts (set_level alloc t SNAPSHOT_ISOLATION)
             else optimal_loop rt template_set ts alloc))))"

definition optimal_alloc :: "Runtime \<Rightarrow> TemplateSet \<Rightarrow> error + Allocation" where
  "optimal_alloc rt template_set =
     (let alloc = \<lparr>templateset = template_set,
                   mapping = fold (\<lambda>t m. m(name t \<mapsto> SERIALIZABLE)) (templates template_set) Map.empty\<rparr>
      in optimal_loop rt template_set (templates template_set) alloc)"

section \<open>A reference runtime\<close>

text \<open>
  One runtime at which the statements below can be evaluated. Its sets iterate in the
  order in which \<open>remdups\<close> leaves their elements. Its closure follows the documented
  behaviour of networkx on an undirected graph: \<open>transitive_closure\<close> joins every node to
  itself and to every node of its connected component, and the edge view yields an edge
  once, from the endpoint that comes first among the nodes.
\<close>

definition adjacent :: "Graph \<Rightarrow> GraphNode \<Rightarrow> GraphNode \<Rightarrow> bool" where
  "adjacent g a b =
     list_ex (\<lambda>(u, v). (GraphNode_eq u a \<and> GraphNode_eq v b) \<or> (GraphNode_eq u b \<and> GraphNode_eq v a))
       (edge_calls g)"

definition component_step :: "Graph \<Rightarrow> GraphNode list \<Rightarrow> GraphNode list" where
  "component_step g vs =
     vs @ filter (\<lambda>u. \<not> list_ex (GraphNode_eq u) vs \<and> list_ex (\<lambda>v. adjacent g v u) vs) (nodes g)"

definition component_of :: "Graph \<Rightarrow> GraphNode \<Rightarrow> GraphNode list" where
  "component_of g v = (component_step g ^^ length (nodes g)) [v]"

definition nx_transitive_closure :: "Graph \<Rightarrow> Graph" where
  "nx_transitive_closure g =
     g\<lparr>edge_calls := edge_calls g @
          filter (\<lambda>(v, u). \<not> adjacent g v u)
            (concat (map (\<lambda>v. map (Pair v) (component_of g v)) (nodes g)))\<rparr>"

definition nx_edges :: "Graph \<Rightarrow> (GraphNode \<times> GraphNode) list" where
  "nx_edges g =
     concat (map (\<lambda>(i, n). map (Pair n)
                (filter (\<lambda>nbr. adjacent g n nbr \<and> \<not> list_ex (GraphNode_eq nbr) (take i (nodes g)))
                   (nodes g)))
       (enumerate 0 (nodes g)))"

definition reference_runtime :: Runtime where
  "reference_runtime =
     \<lparr>iter_template_ops = remdups, iter_template_op = remdups, iter_h = remdups,
      iter_conn = remdups, transitive_closure = nx_transitive_closure, edges = nx_edges\<rparr>"

section \<open>The enumeration of candidate cycles\<close>

text \<open>
  The candidates in the order of \<open>is_robust\<close>'s enumeration: the anchors
  \<open>(t1, o1, p1)\<close>, then \<open>h\<close>, then \<open>(t2, p2)\<close> with \<open>o1\<close> rw-conflicting with \<open>p2\<close>, then
  \<open>o2\<close>, then \<open>(tn, on)\<close> with \<open>on\<close> conflicting with \<open>p1\<close>, then \<open>pn\<close>, then the labels
  \<open>(co2, cpn)\<close>. The position of a candidate in this list is its lexicographic rank.
\<close>

definition candidates :: "Runtime \<Rightarrow> TemplateSet \<Rightarrow> Witness list" where
  "candidates rt template_set =
     [\<lparr>w_t1 = t1, w_o1 = o1, w_p1 = p1, w_h = h, w_t2 = t2, w_o2 = o2, w_p2 = p2, w_co2 = co2,
       w_tn = tn, w_on = on, w_pn = pn, w_cpn = cpn\<rparr>.
        (t1, o1, p1) \<leftarrow> iter_template_ops rt
            (concat (map (\<lambda>t. map (\<lambda>(o1, p1). (t, o1, p1))
                                (List.product (operations t) (operations t)))
                      (templates template_set))),
        h \<leftarrow> iter_h rt (if variable o1 = variable p1 then [1] else [1, 2]),
        (t2, p2) \<leftarrow> iter_template_op rt (template_op_pairs template_set),
        is_rw_conflicting o1 p2,
        o2 \<leftarrow> operations t2,
        (tn, on) \<leftarrow> iter_template_op rt (template_op_pairs template_set),
        is_conflicting on p1,
        pn \<leftarrow> operations tn,
        (co2, cpn) \<leftarrow> List.product
            (iter_conn rt (if variable o2 = variable p2 then [Conn_O] else [Conn_N, Conn_P]))
            (iter_conn rt (if variable on = variable pn then [Conn_P] else [Conn_N, Conn_O]))]"

text \<open>The test \<open>is_robust\<close> makes on one candidate: validity, then reachability.\<close>

definition attempt :: "Runtime \<Rightarrow> TemplateSet \<Rightarrow> Allocation \<Rightarrow> Witness \<Rightarrow> error + Witness option" where
  "attempt rt template_set alloc w =
     bind_err (is_valid_cycle (w_t1 w) (w_o1 w) (w_p1 w) (w_t2 w) (w_o2 w) (w_p2 w) (w_co2 w)
                 (w_tn w) (w_on w) (w_pn w) (w_cpn w) (w_h w) alloc)
       (\<lambda>valid.
          if valid \<and> reachable rt (w_t2 w) (w_o2 w) (w_p2 w) (w_co2 w)
                        (w_tn w) (w_on w) (w_pn w) (w_cpn w) (w_h w)
                        (transitive_closure rt
                           (pt_conflict_graph (w_o1 w) (w_p1 w) (w_t1 w) (w_h w) template_set))
          then Inr (Some w) else Inr None)"

section \<open>Validity without the errors\<close>

text \<open>
  The set that \<open>get_connectedness\<close> computes before its \<open>assert\<close>, and the condition on
  the labels under which the \<open>assert\<close> holds for every target operation.
\<close>

definition conns :: "Operation \<Rightarrow> Operation \<Rightarrow> Conn \<Rightarrow> Operation \<Rightarrow> Conn \<Rightarrow> int \<Rightarrow> Conn set" where
  "conns target_op op_o co op_p cp h =
     (let r = (if variable target_op = variable op_o then {co} else {}) \<union>
              (if variable target_op = variable op_p then {cp} else {});
          r = (if r = {} then {Conn_N} else r)
      in if h = 1 \<and> (Conn_O \<in> r \<or> Conn_P \<in> r) then r \<union> {Conn_O, Conn_P} else r)"

definition labels_ok :: "Operation \<Rightarrow> Conn \<Rightarrow> Operation \<Rightarrow> Conn \<Rightarrow> int \<Rightarrow> bool" where
  "labels_ok op_o co op_p cp h \<longleftrightarrow>
     (h = 1 \<or> h = 2) \<and>
     (variable op_o = variable op_p \<longrightarrow> co = cp \<or> (h = 1 \<and> co \<noteq> Conn_N \<and> cp \<noteq> Conn_N))"

text \<open>What the enumeration of \<open>is_robust\<close> guarantees about the labels of a candidate.\<close>

definition cycle_labels_ok ::
  "Operation \<Rightarrow> Operation \<Rightarrow> Operation \<Rightarrow> Operation \<Rightarrow> Conn \<Rightarrow>
   Operation \<Rightarrow> Operation \<Rightarrow> Conn \<Rightarrow> int \<Rightarrow> bool" where
  "cycle_labels_ok o1 p1 o2 p2 co2 on pn cpn h \<longleftrightarrow>
     labels_ok o1 Conn_O p1 Conn_P h \<and> labels_ok o2 co2 p2 Conn_O h \<and>
     labels_ok on Conn_P pn cpn h"

definition connected_conflict_p ::
  "(Operation \<Rightarrow> Operation \<Rightarrow> bool) \<Rightarrow> Operation \<Rightarrow> Conn set \<Rightarrow> Operation list \<Rightarrow>
   Operation \<Rightarrow> Conn \<Rightarrow> Operation \<Rightarrow> Conn \<Rightarrow> int \<Rightarrow> bool" where
  "connected_conflict_p confl op1 op1_conns ops op_o co op_p cp h =
     list_ex (\<lambda>op2. confl op1 op2 \<and> op1_conns \<inter> conns op2 op_o co op_p cp h \<noteq> {}) ops"

fun ww_scan_p ::
  "Operation list \<Rightarrow> Operation \<Rightarrow> Operation \<Rightarrow>
   Template \<Rightarrow> Operation \<Rightarrow> Operation \<Rightarrow> Conn \<Rightarrow>
   Template \<Rightarrow> Operation \<Rightarrow> Operation \<Rightarrow> Conn \<Rightarrow> int \<Rightarrow> bool \<Rightarrow> bool" where
  "ww_scan_p [] o1 p1 t2 o2 p2 co2 tn on pn cpn h rc = True"
| "ww_scan_p (op1 # ops) o1 p1 t2 o2 p2 co2 tn on pn cpn h rc =
     (let op1_conns = conns op1 o1 Conn_O p1 Conn_P h in
      if Conn_N \<notin> op1_conns \<and>
         (connected_conflict_p is_ww_conflicting op1 op1_conns (operations t2) o2 co2 p2 Conn_O h \<or>
          connected_conflict_p is_ww_conflicting op1 op1_conns (operations tn) on Conn_P pn cpn h)
      then False
      else if op1 = o1 \<and> rc then True
      else ww_scan_p ops o1 p1 t2 o2 p2 co2 tn on pn cpn h rc)"

definition ssi_scan_p ::
  "(Operation \<Rightarrow> Operation \<Rightarrow> bool) \<Rightarrow> Operation list \<Rightarrow> Operation \<Rightarrow> Operation \<Rightarrow>
   Operation list \<Rightarrow> Operation \<Rightarrow> Conn \<Rightarrow> Operation \<Rightarrow> Conn \<Rightarrow> int \<Rightarrow> bool" where
  "ssi_scan_p confl ops1 o1 p1 ops2 op_o co op_p cp h =
     list_ex (\<lambda>op1. connected_conflict_p confl op1 (conns op1 o1 Conn_O p1 Conn_P h)
                      ops2 op_o co op_p cp h) ops1"

text \<open>
  Cycle validity as a predicate of the three isolation levels \<open>l1\<close>, \<open>l2\<close>, \<open>ln\<close> of
  \<open>t1\<close>, \<open>t2\<close>, \<open>tn\<close>: the conjunction of the conditions of \<open>is_valid_cycle\<close>.
\<close>

definition valid_p ::
  "Template \<Rightarrow> Operation \<Rightarrow> Operation \<Rightarrow> Template \<Rightarrow> Operation \<Rightarrow> Operation \<Rightarrow> Conn \<Rightarrow>
   Template \<Rightarrow> Operation \<Rightarrow> Operation \<Rightarrow> Conn \<Rightarrow> int \<Rightarrow>
   IsolationLevel \<Rightarrow> IsolationLevel \<Rightarrow> IsolationLevel \<Rightarrow> bool" where
  "valid_p t1 o1 p1 t2 o2 p2 co2 tn on pn cpn h l1 l2 ln \<longleftrightarrow>
     ww_scan_p (operations t1) o1 p1 t2 o2 p2 co2 tn on pn cpn h (l1 = READ_COMMITTED) \<and>
     is_rw_conflicting o1 p2 \<and>
     (is_rw_conflicting on p1 \<or>
      (l1 = READ_COMMITTED \<and> \<not> p1_before_o1 (operations t1) o1 p1)) \<and>
     \<not> (l1 = SERIALIZABLE \<and> l2 = SERIALIZABLE \<and> ln = SERIALIZABLE) \<and>
     \<not> (l1 = SERIALIZABLE \<and> l2 = SERIALIZABLE \<and>
        ssi_scan_p is_wr_conflicting (operations t1) o1 p1 (operations t2) o2 co2 p2 Conn_O h) \<and>
     \<not> (l1 = SERIALIZABLE \<and> ln = SERIALIZABLE \<and>
        ssi_scan_p is_rw_conflicting (operations t1) o1 p1 (operations tn) on Conn_P pn cpn h)"

text \<open>An allocation is total over a template set when it maps every template of the set.\<close>

definition total_over :: "TemplateSet \<Rightarrow> Allocation \<Rightarrow> bool" where
  "total_over template_set alloc \<longleftrightarrow>
     list_all (\<lambda>t. mapping alloc (name t) \<noteq> None) (templates template_set)"

text \<open>\<open>level_of alloc t\<close> is \<open>alloc.mapping[t]\<close> where the key is present.\<close>

definition level_of :: "Allocation \<Rightarrow> Template \<Rightarrow> IsolationLevel" where
  "level_of alloc t = the (mapping alloc (name t))"

text \<open>The pointwise order of two allocations over a template set, under RC < SI < SSI.\<close>

definition alloc_le :: "TemplateSet \<Rightarrow> Allocation \<Rightarrow> Allocation \<Rightarrow> bool" where
  "alloc_le template_set a b \<longleftrightarrow>
     list_all (\<lambda>t. level_value (level_of a t) \<le> level_value (level_of b t)) (templates template_set)"

text \<open>A candidate is drawn from the template set, with labels as the enumeration assigns them.\<close>

definition candidate_ok :: "TemplateSet \<Rightarrow> Witness \<Rightarrow> bool" where
  "candidate_ok template_set w \<longleftrightarrow>
     w_t1 w \<in> set (templates template_set) \<and>
     w_t2 w \<in> set (templates template_set) \<and>
     w_tn w \<in> set (templates template_set) \<and>
     w_o1 w \<in> set (operations (w_t1 w)) \<and> w_p1 w \<in> set (operations (w_t1 w)) \<and>
     w_o2 w \<in> set (operations (w_t2 w)) \<and> w_p2 w \<in> set (operations (w_t2 w)) \<and>
     w_on w \<in> set (operations (w_tn w)) \<and> w_pn w \<in> set (operations (w_tn w)) \<and>
     is_rw_conflicting (w_o1 w) (w_p2 w) \<and> is_conflicting (w_on w) (w_p1 w) \<and>
     cycle_labels_ok (w_o1 w) (w_p1 w) (w_o2 w) (w_p2 w) (w_co2 w) (w_on w) (w_pn w) (w_cpn w) (w_h w)"

text \<open>
  A candidate passes the test of \<open>is_robust\<close> when \<open>is_valid_cycle\<close> returns \<open>True\<close> and
  \<open>reachable\<close>, on the closure built for the candidate's anchors, returns \<open>True\<close>.
\<close>

definition valid_and_reachable :: "Runtime \<Rightarrow> TemplateSet \<Rightarrow> Allocation \<Rightarrow> Witness \<Rightarrow> bool" where
  "valid_and_reachable rt template_set alloc w \<longleftrightarrow>
     is_valid_cycle (w_t1 w) (w_o1 w) (w_p1 w) (w_t2 w) (w_o2 w) (w_p2 w) (w_co2 w)
       (w_tn w) (w_on w) (w_pn w) (w_cpn w) (w_h w) alloc = Inr True \<and>
     reachable rt (w_t2 w) (w_o2 w) (w_p2 w) (w_co2 w) (w_tn w) (w_on w) (w_pn w) (w_cpn w) (w_h w)
       (transitive_closure rt
          (pt_conflict_graph (w_o1 w) (w_p1 w) (w_t1 w) (w_h w) template_set))"

text \<open>The sanity condition that the \<open>assert\<close> of \<open>get_connectedness\<close> states.\<close>

definition sanity :: "int \<Rightarrow> Conn set \<Rightarrow> bool" where
  "sanity h result \<longleftrightarrow>
     (h = 1 \<and> (result = {Conn_N} \<or> result = {Conn_O, Conn_P})) \<or>
     (h = 2 \<and> (result = {Conn_N} \<or> result = {Conn_O} \<or> result = {Conn_P}))"

section \<open>Example inputs\<close>

text \<open>
  A read of \<open>Balance\<close> on one row of \<open>Account\<close>, a write of \<open>Balance\<close> on another row,
  a read followed by a write on the same row; the template \<open>Skew\<close> that reads one row and
  writes the other (two instances of it form a write skew), the read-only template
  \<open>Reader\<close>, and the template \<open>Update\<close> whose only operation reads and writes \<open>Balance\<close>.
\<close>

definition ex_read :: Operation where
  "ex_read = \<lparr>variable = ''X'', relation = ''Account'',
              readset = {|''Balance''|}, writeset = {||}\<rparr>"

definition ex_write :: Operation where
  "ex_write = \<lparr>variable = ''Y'', relation = ''Account'',
               readset = {||}, writeset = {|''Balance''|}\<rparr>"

definition ex_update :: Operation where
  "ex_update = \<lparr>variable = ''X'', relation = ''Account'',
                readset = {|''Balance''|}, writeset = {|''Balance''|}\<rparr>"

definition ex_skew :: Template where
  "ex_skew = \<lparr>name = ''Skew'', operations = [ex_read, ex_write]\<rparr>"

definition ex_reader :: Template where
  "ex_reader = \<lparr>name = ''Reader'', operations = [ex_read]\<rparr>"

definition ex_updater :: Template where
  "ex_updater = \<lparr>name = ''Update'', operations = [ex_update]\<rparr>"

text \<open>The allocation that maps every template of a template set to the same level.\<close>

definition uniform_alloc :: "TemplateSet \<Rightarrow> IsolationLevel \<Rightarrow> Allocation" where
  "uniform_alloc template_set l =
     \<lparr>templateset = template_set,
      mapping = map_of (map (\<lambda>t. (name t, l)) (templates template_set))\<rparr>"

text \<open>A blind write of \<open>Balance\<close> on a third row, and the template \<open>Writer\<close> that makes it.\<close>

definition ex_blind :: Operation where
  "ex_blind = \<lparr>variable = ''Z'', relation = ''Account'',
               readset = {||}, writeset = {|''Balance''|}\<rparr>"

definition ex_writer :: Template where
  "ex_writer = \<lparr>name = ''Writer'', operations = [ex_blind]\<rparr>"







section \<open>Auxiliary facts\<close>

subsection \<open>Connectedness, the scans and cycle validity\<close>

lemma finite_conn: "finite (A :: Conn set)"
proof (rule finite_subset)
  show "A \<subseteq> {Conn_O, Conn_P, Conn_N}"
  proof
    fix x assume "x \<in> A" then show "x \<in> {Conn_O, Conn_P, Conn_N}" by (cases x) auto
  qed
qed simp

lemma card_conn_pos: "0 < card (A :: Conn set) \<longleftrightarrow> A \<noteq> {}"
  by (simp add: card_gt_0_iff finite_conn)

lemma get_connectedness_ok:
  "labels_ok op_o co op_p cp h \<Longrightarrow>
   get_connectedness target_op op_o co op_p cp h = Inr (conns target_op op_o co op_p cp h)"
  unfolding labels_ok_def get_connectedness_def conns_def Let_def
  by (cases co; cases cp) (auto)

lemma bind_err_Inr [simp]: "bind_err (Inr v) f = f v"
  by (simp add: bind_err_def)

lemma bind_err_Inl [simp]: "bind_err (Inl e) f = Inl e"
  by (simp add: bind_err_def)

lemma lookup_Some: "mapping alloc (name t) = Some l \<Longrightarrow> lookup alloc t = Inr l"
  by (simp add: lookup_def)

lemma lookup_None: "mapping alloc (name t) = None \<Longrightarrow> lookup alloc t = Inl KeyError"
  by (simp add: lookup_def)

lemma lookup_err: "lookup alloc t = Inl e \<Longrightarrow> e = KeyError \<and> mapping alloc (name t) = None"
  by (auto simp: lookup_def split: option.splits)

lemma connected_conflict_ok:
  "labels_ok op_o co op_p cp h \<Longrightarrow>
   connected_conflict confl op1 c ops op_o co op_p cp h =
     Inr (connected_conflict_p confl op1 c ops op_o co op_p cp h)"
  by (induction ops)
     (simp_all add: connected_conflict_p_def get_connectedness_ok card_conn_pos)

lemma ww_scan_ok:
  assumes "cycle_labels_ok o1 p1 o2 p2 co2 on pn cpn h"
    and "mapping alloc (name t1) = Some l1"
  shows "ww_scan ops t1 o1 p1 t2 o2 p2 co2 tn on pn cpn h alloc =
     Inr (ww_scan_p ops o1 p1 t2 o2 p2 co2 tn on pn cpn h (l1 = READ_COMMITTED))"
  using assms
  by (induction ops)
     (simp_all add: cycle_labels_ok_def get_connectedness_ok connected_conflict_ok lookup_Some Let_def)

lemma ww_scan_err:
  assumes "cycle_labels_ok o1 p1 o2 p2 co2 on pn cpn h"
  shows "ww_scan ops t1 o1 p1 t2 o2 p2 co2 tn on pn cpn h alloc = Inl e \<Longrightarrow>
     e = KeyError \<and> mapping alloc (name t1) = None"
  using assms
proof (induction ops)
  case Nil
  then show ?case by simp
next
  case (Cons op1 ops)
  then show ?case
    by (auto simp: cycle_labels_ok_def get_connectedness_ok connected_conflict_ok Let_def
        bind_err_def
        dest: lookup_err split: if_splits sum.splits)
qed

lemma ssi_scan_ok:
  "labels_ok o1 Conn_O p1 Conn_P h \<Longrightarrow> labels_ok op_o co op_p cp h \<Longrightarrow>
   ssi_scan confl ops1 o1 p1 ops2 op_o co op_p cp h =
     Inr (ssi_scan_p confl ops1 o1 p1 ops2 op_o co op_p cp h)"
  by (induction ops1)
     (simp_all add: ssi_scan_p_def get_connectedness_ok connected_conflict_ok)

lemma all_serializable_ok:
  "list_all (\<lambda>t. mapping alloc (name t) \<noteq> None) ts \<Longrightarrow>
   all_serializable alloc ts = Inr (list_all (\<lambda>t. level_of alloc t = SERIALIZABLE) ts)"
  by (induction ts) (auto simp: lookup_Some level_of_def)

lemma all_serializable_err:
  "all_serializable alloc ts = Inl e \<Longrightarrow>
   e = KeyError \<and> (\<exists>t \<in> set ts. mapping alloc (name t) = None)"
  by (induction ts) (auto simp: bind_err_def dest: lookup_err split: sum.splits if_splits)

lemma condition5_ok:
  "mapping alloc (name t1) = Some l1 \<Longrightarrow>
   condition5 t1 o1 p1 on alloc =
     Inr (is_rw_conflicting on p1 \<or>
          (l1 = READ_COMMITTED \<and> \<not> p1_before_o1 (operations t1) o1 p1))"
  by (auto simp: condition5_def lookup_Some)

lemma condition5_err:
  "condition5 t1 o1 p1 on alloc = Inl e \<Longrightarrow> e = KeyError \<and> mapping alloc (name t1) = None"
  by (auto simp: condition5_def bind_err_def dest: lookup_err split: sum.splits if_splits)

lemma is_valid_cycle_ok:
  assumes "cycle_labels_ok o1 p1 o2 p2 co2 on pn cpn h"
    and "mapping alloc (name t1) = Some l1"
    and "mapping alloc (name t2) = Some l2"
    and "mapping alloc (name tn) = Some ln"
  shows "is_valid_cycle t1 o1 p1 t2 o2 p2 co2 tn on pn cpn h alloc =
     Inr (valid_p t1 o1 p1 t2 o2 p2 co2 tn on pn cpn h l1 l2 ln)"
proof -
  have l: "labels_ok o1 Conn_O p1 Conn_P h" "labels_ok o2 co2 p2 Conn_O h"
    "labels_ok on Conn_P pn cpn h"
    using assms(1) by (simp_all add: cycle_labels_ok_def)
  have a3: "all_serializable alloc [t1, t2, tn] =
      Inr (l1 = SERIALIZABLE \<and> l2 = SERIALIZABLE \<and> ln = SERIALIZABLE)"
    by (subst all_serializable_ok) (simp_all add: assms level_of_def)
  have a12: "all_serializable alloc [t1, t2] = Inr (l1 = SERIALIZABLE \<and> l2 = SERIALIZABLE)"
    by (subst all_serializable_ok) (simp_all add: assms level_of_def)
  have a1n: "all_serializable alloc [t1, tn] = Inr (l1 = SERIALIZABLE \<and> ln = SERIALIZABLE)"
    by (subst all_serializable_ok) (simp_all add: assms level_of_def)
  show ?thesis
    unfolding is_valid_cycle_def valid_p_def
    by (auto simp add: ww_scan_ok [OF assms(1,2)] condition5_ok [OF assms(2)]
        a3 a12 a1n ssi_scan_ok l simp del: all_serializable.simps)
qed

lemma is_valid_cycle_err:
  assumes "cycle_labels_ok o1 p1 o2 p2 co2 on pn cpn h"
    and "is_valid_cycle t1 o1 p1 t2 o2 p2 co2 tn on pn cpn h alloc = Inl e"
  shows "e = KeyError \<and>
     (mapping alloc (name t1) = None \<or> mapping alloc (name t2) = None \<or>
      mapping alloc (name tn) = None)"
proof -
  have l: "labels_ok o1 Conn_O p1 Conn_P h" "labels_ok o2 co2 p2 Conn_O h"
    "labels_ok on Conn_P pn cpn h"
    using assms(1) by (simp_all add: cycle_labels_ok_def)
  have none: "mapping alloc (name t1) = None \<or> mapping alloc (name t2) = None \<or>
      mapping alloc (name tn) = None"
  proof (rule ccontr)
    assume "\<not> ?thesis"
    then obtain l1 l2 ln where "mapping alloc (name t1) = Some l1"
      "mapping alloc (name t2) = Some l2" "mapping alloc (name tn) = Some ln"
      by auto
    from is_valid_cycle_ok [OF assms(1) this] assms(2) show False by simp
  qed
  have "e = KeyError"
    using assms(2) unfolding is_valid_cycle_def
    by (auto simp: bind_err_def ssi_scan_ok l simp del: all_serializable.simps
        dest: ww_scan_err [OF assms(1)] condition5_err all_serializable_err
        split: sum.splits if_splits)
  with none show ?thesis by simp
qed

subsection \<open>Loops and the enumeration\<close>

lemma for_loop_append:
  "for_loop (xs @ ys) body =
     (case for_loop xs body of Inl e \<Rightarrow> Inl e | Inr (Some r) \<Rightarrow> Inr (Some r) | Inr None \<Rightarrow> for_loop ys body)"
  by (induction xs) (auto split: sum.splits option.splits)

lemma for_loop_concat_map:
  "for_loop (concat (map f xs)) body = for_loop xs (\<lambda>x. for_loop (f x) body)"
  by (induction xs) (auto simp: for_loop_append split: sum.splits option.splits)

lemma for_loop_single: "for_loop [x] body = body x"
  by (auto split: sum.splits option.splits)

lemma for_loop_if_nil:
  "for_loop (if c then xs else []) body = (if \<not> c then Inr None else for_loop xs body)"
  by simp

lemma for_loop_map: "for_loop (map f xs) body = for_loop xs (\<lambda>x. body (f x))"
  by (induction xs) (auto split: sum.splits option.splits)

lemma for_loop_None_iff:
  "for_loop xs body = Inr None \<longleftrightarrow> (\<forall>x \<in> set xs. body x = Inr None)"
  by (induction xs) (auto split: sum.splits option.splits)

lemma for_loop_Some_split:
  "for_loop xs body = Inr (Some r) \<Longrightarrow>
     \<exists>pre x post. xs = pre @ x # post \<and> (\<forall>y \<in> set pre. body y = Inr None) \<and>
        body x = Inr (Some r)"
proof (induction xs)
  case Nil
  then show ?case by simp
next
  case (Cons a xs)
  show ?case
  proof (cases "body a = Inr None")
    case True
    with Cons.prems have "for_loop xs body = Inr (Some r)" by simp
    from Cons.IH [OF this] obtain pre x post where
      "xs = pre @ x # post" "\<forall>y \<in> set pre. body y = Inr None" "body x = Inr (Some r)"
      by blast
    with True have "a # xs = (a # pre) @ x # post \<and> (\<forall>y \<in> set (a # pre). body y = Inr None) \<and>
        body x = Inr (Some r)" by simp
    then show ?thesis by blast
  next
    case False
    with Cons.prems have "body a = Inr (Some r)"
      by (auto split: sum.splits option.splits)
    then have "a # xs = [] @ a # xs \<and> (\<forall>y \<in> set []. body y = Inr None) \<and>
        body a = Inr (Some r)" by simp
    then show ?thesis by blast
  qed
qed

lemma for_loop_Inl:
  "for_loop xs body = Inl e \<Longrightarrow> \<exists>x \<in> set xs. body x = Inl e"
  by (induction xs) (auto split: sum.splits option.splits)

lemma is_robust_flat:
  "is_robust rt ts alloc =
     (case for_loop (candidates rt ts) (attempt rt ts alloc) of
        Inl e \<Rightarrow> Inl e
      | Inr (Some w) \<Rightarrow> Inr (False, Some w)
      | Inr None \<Rightarrow> Inr (True, None))"
  unfolding is_robust_def candidates_def attempt_def Let_def
  by (simp add: for_loop_map for_loop_concat_map for_loop_single for_loop_if_nil split_def
      cong: if_cong)

lemma h_labels_ok:
  "h \<in> set (if variable o1 = variable p1 then [1] else [1, 2]) \<Longrightarrow>
   labels_ok o1 Conn_O p1 Conn_P h"
  by (auto simp: labels_ok_def split: if_splits)

lemma co2_labels_ok:
  "co2 \<in> set (if variable o2 = variable p2 then [Conn_O] else [Conn_N, Conn_P]) \<Longrightarrow>
   h = 1 \<or> h = 2 \<Longrightarrow> labels_ok o2 co2 p2 Conn_O h"
  by (auto simp: labels_ok_def split: if_splits)

lemma cpn_labels_ok:
  "cpn \<in> set (if variable on = variable pn then [Conn_P] else [Conn_N, Conn_O]) \<Longrightarrow>
   h = 1 \<or> h = 2 \<Longrightarrow> labels_ok on Conn_P pn cpn h"
  by (auto simp: labels_ok_def split: if_splits)

lemma labels_ok_h: "labels_ok a b c d h \<Longrightarrow> h = 1 \<or> h = 2"
  by (simp add: labels_ok_def)

lemma candidates_ok:
  assumes "wf_runtime rt" and "w \<in> set (candidates rt ts)"
  shows "candidate_ok ts w"
proof -
  have s1: "\<And>xs. set (iter_template_ops rt xs) = set xs"
    and s2: "\<And>xs. set (iter_template_op rt xs) = set xs"
    and s3: "\<And>xs. set (iter_h rt xs) = set xs"
    and s4: "\<And>xs. set (iter_conn rt xs) = set xs"
    using assms(1) by (simp_all add: wf_runtime_def)
  from assms(2) obtain t1 o1 p1 h t2 p2 o2 tn on pn co2 cpn where
    w: "w = \<lparr>w_t1 = t1, w_o1 = o1, w_p1 = p1, w_h = h, w_t2 = t2, w_o2 = o2, w_p2 = p2,
        w_co2 = co2, w_tn = tn, w_on = on, w_pn = pn, w_cpn = cpn\<rparr>"
    and m: "t1 \<in> set (templates ts)" "o1 \<in> set (operations t1)" "p1 \<in> set (operations t1)"
      "h \<in> set (if variable o1 = variable p1 then [1] else [1, 2])"
      "t2 \<in> set (templates ts)" "p2 \<in> set (operations t2)" "is_rw_conflicting o1 p2"
      "o2 \<in> set (operations t2)"
      "tn \<in> set (templates ts)" "on \<in> set (operations tn)" "is_conflicting on p1"
      "pn \<in> set (operations tn)"
      "co2 \<in> set (if variable o2 = variable p2 then [Conn_O] else [Conn_N, Conn_P])"
      "cpn \<in> set (if variable on = variable pn then [Conn_P] else [Conn_N, Conn_O])"
    unfolding candidates_def template_op_pairs_def
    by (clarsimp simp: s1 s2 s3 s4 simp del: set_simps split del: if_split)
  have l1: "labels_ok o1 Conn_O p1 Conn_P h" by (rule h_labels_ok [OF m(4)])
  have hh: "h = 1 \<or> h = 2" by (rule labels_ok_h [OF l1])
  show ?thesis
    unfolding candidate_ok_def cycle_labels_ok_def
    by (simp add: w m l1 co2_labels_ok [OF m(13) hh] cpn_labels_ok [OF m(14) hh]
        split del: if_split del: set_simps)
qed

subsection \<open>One candidate, and the oracle as a whole\<close>

lemma wf_reference_runtime: "wf_runtime reference_runtime"
  by (simp add: wf_runtime_def reference_runtime_def)

lemma total_over_lookup:
  "total_over ts A \<Longrightarrow> t \<in> set (templates ts) \<Longrightarrow> mapping A (name t) = Some (level_of A t)"
  by (auto simp: total_over_def level_of_def list_all_iff)

lemma attempt_total:
  assumes "candidate_ok ts w" and "total_over ts A"
  shows "attempt rt ts A w =
     Inr (if valid_and_reachable rt ts A w then Some w else None)"
proof -
  have c: "cycle_labels_ok (w_o1 w) (w_p1 w) (w_o2 w) (w_p2 w) (w_co2 w) (w_on w) (w_pn w)
      (w_cpn w) (w_h w)"
    using assms(1) by (simp add: candidate_ok_def)
  have m: "mapping A (name (w_t1 w)) = Some (level_of A (w_t1 w))"
    "mapping A (name (w_t2 w)) = Some (level_of A (w_t2 w))"
    "mapping A (name (w_tn w)) = Some (level_of A (w_tn w))"
    using assms by (simp_all add: candidate_ok_def total_over_lookup)
  show ?thesis
    unfolding attempt_def valid_and_reachable_def
    by (simp add: is_valid_cycle_ok [OF c m])
qed

lemma attempt_err:
  assumes "candidate_ok ts w" and "attempt rt ts A w = Inl e"
  shows "e = KeyError \<and> \<not> total_over ts A"
proof -
  have c: "cycle_labels_ok (w_o1 w) (w_p1 w) (w_o2 w) (w_p2 w) (w_co2 w) (w_on w) (w_pn w)
      (w_cpn w) (w_h w)"
    using assms(1) by (simp add: candidate_ok_def)
  from assms(2) have "is_valid_cycle (w_t1 w) (w_o1 w) (w_p1 w) (w_t2 w) (w_o2 w) (w_p2 w)
      (w_co2 w) (w_tn w) (w_on w) (w_pn w) (w_cpn w) (w_h w) A = Inl e"
    by (auto simp: attempt_def bind_err_def split: sum.splits if_splits)
  from is_valid_cycle_err [OF c this] assms(1) show ?thesis
    by (auto simp: candidate_ok_def total_over_def list_all_iff)
qed

lemma attempt_Some:
  "attempt rt ts A w = Inr (Some w') \<longleftrightarrow> w' = w \<and> valid_and_reachable rt ts A w"
  by (auto simp: attempt_def valid_and_reachable_def bind_err_def split: sum.splits if_splits)

lemma attempt_None:
  "attempt rt ts A w = Inr None \<Longrightarrow> \<not> valid_and_reachable rt ts A w"
  by (auto simp: attempt_def valid_and_reachable_def bind_err_def split: sum.splits if_splits)

lemma is_robust_all_rejected:
  "(\<And>w. w \<in> set (candidates rt ts) \<Longrightarrow> attempt rt ts A w = Inr None) \<Longrightarrow>
   is_robust rt ts A = Inr (True, None)"
proof -
  assume "\<And>w. w \<in> set (candidates rt ts) \<Longrightarrow> attempt rt ts A w = Inr None"
  then have "for_loop (candidates rt ts) (attempt rt ts A) = Inr None"
    by (simp add: for_loop_None_iff)
  then show ?thesis by (simp add: is_robust_flat)
qed

lemma is_robust_True_iff:
  "is_robust rt ts A = Inr (True, r) \<longleftrightarrow>
     r = None \<and> (\<forall>w \<in> set (candidates rt ts). attempt rt ts A w = Inr None)"
  by (auto simp: is_robust_flat for_loop_None_iff [symmetric] split: sum.splits option.splits)


lemma is_robust_err:
  assumes "wf_runtime rt" and "is_robust rt ts A = Inl e"
  shows "e = KeyError \<and> \<not> total_over ts A"
proof -
  from assms(2) have "for_loop (candidates rt ts) (attempt rt ts A) = Inl e"
    by (auto simp: is_robust_flat split: sum.splits option.splits)
  then obtain w where "w \<in> set (candidates rt ts)" "attempt rt ts A w = Inl e"
    by (blast dest: for_loop_Inl)
  with assms(1) show ?thesis by (blast dest: candidates_ok attempt_err)
qed

section \<open>The all-SERIALIZABLE allocation and the boundary cases\<close>

lemma is_valid_cycle_all_ssi:
  assumes "mapping A (name t1) = Some SERIALIZABLE"
    and "mapping A (name t2) = Some SERIALIZABLE"
    and "mapping A (name tn) = Some SERIALIZABLE"
  shows "is_valid_cycle t1 o1 p1 t2 o2 p2 co2 tn on pn cpn h A \<noteq> Inr True"
proof -
  have "all_serializable A [t1, t2, tn] = Inr True"
    using assms by (simp add: lookup_Some)
  then show ?thesis
    unfolding is_valid_cycle_def
    by (auto simp: bind_err_def simp del: all_serializable.simps split: sum.splits if_splits)
qed

lemma is_robust_all_ssi:
  assumes "wf_runtime rt"
    and "list_all (\<lambda>t. mapping A (name t) = Some SERIALIZABLE) (templates ts)"
  shows "is_robust rt ts A = Inr (True, None)"
proof (rule is_robust_all_rejected)
  fix w assume w: "w \<in> set (candidates rt ts)"
  then have c: "candidate_ok ts w" using assms(1) by (rule candidates_ok [rotated])
  have tot: "total_over ts A"
    using assms(2) by (simp add: total_over_def list_all_iff)
  have m: "mapping A (name (w_t1 w)) = Some SERIALIZABLE"
    "mapping A (name (w_t2 w)) = Some SERIALIZABLE"
    "mapping A (name (w_tn w)) = Some SERIALIZABLE"
    using c assms(2) by (simp_all add: candidate_ok_def list_all_iff)
  have "\<not> valid_and_reachable rt ts A w"
    using is_valid_cycle_all_ssi [OF m] by (simp add: valid_and_reachable_def)
  then show "attempt rt ts A w = Inr None"
    by (simp add: attempt_total [OF c tot])
qed

text \<open>
  C1. Under an allocation that maps every template of the template set to SERIALIZABLE,
  \<open>is_robust\<close> returns \<open>True\<close> (with the empty dictionary), whatever the template set and
  whatever the order in which the runtime iterates its sets.
\<close>

theorem all_serializable_is_robust:
  assumes "wf_runtime rt"
    and "list_all (\<lambda>t. mapping A (name t) = Some SERIALIZABLE) (templates ts)"
  shows "is_robust rt ts A = Inr (True, None)"
  using assms by (rule is_robust_all_ssi)

theorem all_serializable_is_robust_witness:
  "wf_runtime reference_runtime \<and>
   list_all (\<lambda>t. mapping (uniform_alloc \<lparr>templates = [ex_skew, ex_reader]\<rparr> SERIALIZABLE) (name t)
                   = Some SERIALIZABLE)
     (templates \<lparr>templates = [ex_skew, ex_reader]\<rparr>) \<and>
   is_robust reference_runtime \<lparr>templates = [ex_skew, ex_reader]\<rparr>
     (uniform_alloc \<lparr>templates = [ex_skew, ex_reader]\<rparr> SERIALIZABLE) = Inr (True, None)"
proof -
  have a: "list_all (\<lambda>t. mapping (uniform_alloc \<lparr>templates = [ex_skew, ex_reader]\<rparr> SERIALIZABLE)
      (name t) = Some SERIALIZABLE) (templates \<lparr>templates = [ex_skew, ex_reader]\<rparr>)"
    by (simp add: uniform_alloc_def ex_skew_def ex_reader_def)
  from all_serializable_is_robust [OF wf_reference_runtime a] wf_reference_runtime a
  show ?thesis by simp
qed

lemma not_rw_conflicting_no_writes: "writeset b = {||} \<Longrightarrow> \<not> is_rw_conflicting a b"
  by (simp add: is_rw_conflicting_def)

text \<open>
  C9. A template set of one template whose only operation writes nothing is robust under
  every allocation: no operation can take the part of \<open>p2\<close>, so no candidate is enumerated.
\<close>

theorem single_read_only_is_robust:
  assumes "wf_runtime rt" and "templates ts = [t]" and "operations t = [op]"
    and "writeset op = {||}"
  shows "is_robust rt ts A = Inr (True, None)"
proof (rule is_robust_all_rejected)
  fix w assume "w \<in> set (candidates rt ts)"
  then have c: "candidate_ok ts w" using assms(1) by (rule candidates_ok [rotated])
  then have "w_p2 w = op" using assms(2,3) by (auto simp: candidate_ok_def)
  then have "\<not> is_rw_conflicting (w_o1 w) (w_p2 w)"
    using assms(4) by (simp add: not_rw_conflicting_no_writes)
  with c have False by (simp add: candidate_ok_def)
  then show "attempt rt ts A w = Inr None" ..
qed

theorem single_read_only_is_robust_witness:
  "wf_runtime reference_runtime \<and> templates \<lparr>templates = [ex_reader]\<rparr> = [ex_reader] \<and>
   operations ex_reader = [ex_read] \<and> writeset ex_read = {||} \<and>
   is_robust reference_runtime \<lparr>templates = [ex_reader]\<rparr>
     (uniform_alloc \<lparr>templates = [ex_reader]\<rparr> READ_COMMITTED) = Inr (True, None)"
proof -
  have a: "templates \<lparr>templates = [ex_reader]\<rparr> = [ex_reader]" by simp
  have b: "operations ex_reader = [ex_read]" by (simp add: ex_reader_def)
  have c: "writeset ex_read = {||}" by (simp add: ex_read_def)
  from single_read_only_is_robust [OF wf_reference_runtime a b c] wf_reference_runtime a b c
  show ?thesis by simp
qed

text \<open>
  C10. For a template set without templates the enumeration is empty: \<open>is_robust\<close> returns
  \<open>True\<close> and the empty dictionary, under every allocation.
\<close>

theorem empty_template_set_is_robust:
  assumes "wf_runtime rt" and "templates ts = []"
  shows "is_robust rt ts A = Inr (True, None)"
proof (rule is_robust_all_rejected)
  fix w assume "w \<in> set (candidates rt ts)"
  then have "candidate_ok ts w" using assms(1) by (rule candidates_ok [rotated])
  then have False using assms(2) by (simp add: candidate_ok_def)
  then show "attempt rt ts A w = Inr None" ..
qed

theorem empty_template_set_is_robust_witness:
  "wf_runtime reference_runtime \<and> templates \<lparr>templates = []\<rparr> = [] \<and>
   is_robust reference_runtime \<lparr>templates = []\<rparr>
     (uniform_alloc \<lparr>templates = [ex_reader]\<rparr> SNAPSHOT_ISOLATION) = Inr (True, None)"
proof -
  have a: "templates \<lparr>templates = []\<rparr> = []" by simp
  from empty_template_set_is_robust [OF wf_reference_runtime a] wf_reference_runtime a
  show ?thesis by simp
qed

section \<open>Conflicts of the example operations\<close>

lemma fcard_pos: "0 < fcard A \<longleftrightarrow> A \<noteq> {||}"
  by (cases "A = {||}") (auto simp: fcard_fempty)

lemma ex_conflicts:
  "is_rw_conflicting ex_read ex_write" "\<not> is_rw_conflicting ex_read ex_read"
  "\<not> is_rw_conflicting ex_write ex_read" "\<not> is_rw_conflicting ex_write ex_write"
  "is_conflicting ex_read ex_write" "is_conflicting ex_write ex_read"
  "\<not> is_conflicting ex_read ex_read" "is_conflicting ex_write ex_write"
  "\<not> is_ww_conflicting ex_read ex_write" "\<not> is_ww_conflicting ex_read ex_read"
  "\<not> is_ww_conflicting ex_write ex_read" "is_ww_conflicting ex_write ex_write"
  "ex_read \<noteq> ex_write" "ex_write \<noteq> ex_read"
  "variable ex_read \<noteq> variable ex_write" "variable ex_write \<noteq> variable ex_read"
  by (simp_all add: is_conflicting_def is_rw_conflicting_def is_wr_conflicting_def
      is_ww_conflicting_def ex_read_def ex_write_def fcard_pos)

section \<open>The closure case of reachability\<close>




section \<open>Monotonicity\<close>

lemma ww_scan_p_mono:
  "ww_scan_p ops o1 p1 t2 o2 p2 co2 tn on pn cpn h False \<Longrightarrow>
   ww_scan_p ops o1 p1 t2 o2 p2 co2 tn on pn cpn h rc"
  by (induction ops) (auto simp: Let_def split: if_splits)

lemma level_le_rc:
  "level_value l \<le> level_value l' \<Longrightarrow> l' = READ_COMMITTED \<Longrightarrow> l = READ_COMMITTED"
  by (cases l) simp_all

lemma level_le_ssi:
  "level_value l \<le> level_value l' \<Longrightarrow> l = SERIALIZABLE \<Longrightarrow> l' = SERIALIZABLE"
  by (cases l') simp_all

lemma valid_p_mono:
  assumes "level_value l1 \<le> level_value l1'" and "level_value l2 \<le> level_value l2'"
    and "level_value ln \<le> level_value ln'"
    and v: "valid_p t1 o1 p1 t2 o2 p2 co2 tn on pn cpn h l1' l2' ln'"
  shows "valid_p t1 o1 p1 t2 o2 p2 co2 tn on pn cpn h l1 l2 ln"
proof -
  have rc: "l1' = READ_COMMITTED \<Longrightarrow> l1 = READ_COMMITTED"
    using assms(1) by (rule level_le_rc)
  have s1: "l1 = SERIALIZABLE \<Longrightarrow> l1' = SERIALIZABLE" using assms(1) by (rule level_le_ssi)
  have s2: "l2 = SERIALIZABLE \<Longrightarrow> l2' = SERIALIZABLE" using assms(2) by (rule level_le_ssi)
  have sn: "ln = SERIALIZABLE \<Longrightarrow> ln' = SERIALIZABLE" using assms(3) by (rule level_le_ssi)
  have scan: "ww_scan_p (operations t1) o1 p1 t2 o2 p2 co2 tn on pn cpn h (l1 = READ_COMMITTED)"
  proof (cases "l1' = READ_COMMITTED")
    case True
    with v rc show ?thesis by (simp add: valid_p_def)
  next
    case False
    with v have "ww_scan_p (operations t1) o1 p1 t2 o2 p2 co2 tn on pn cpn h False"
      by (simp add: valid_p_def)
    then show ?thesis by (rule ww_scan_p_mono)
  qed
  from v have rest: "is_rw_conflicting o1 p2"
    "is_rw_conflicting on p1 \<or> (l1' = READ_COMMITTED \<and> \<not> p1_before_o1 (operations t1) o1 p1)"
    "\<not> (l1' = SERIALIZABLE \<and> l2' = SERIALIZABLE \<and> ln' = SERIALIZABLE)"
    "\<not> (l1' = SERIALIZABLE \<and> l2' = SERIALIZABLE \<and>
        ssi_scan_p is_wr_conflicting (operations t1) o1 p1 (operations t2) o2 co2 p2 Conn_O h)"
    "\<not> (l1' = SERIALIZABLE \<and> ln' = SERIALIZABLE \<and>
        ssi_scan_p is_rw_conflicting (operations t1) o1 p1 (operations tn) on Conn_P pn cpn h)"
    by (simp_all add: valid_p_def)
  show ?thesis
    unfolding valid_p_def
    using scan rest rc s1 s2 sn by blast
qed

lemma valid_and_reachable_total:
  assumes "candidate_ok ts w" and "total_over ts A"
  shows "valid_and_reachable rt ts A w \<longleftrightarrow>
     valid_p (w_t1 w) (w_o1 w) (w_p1 w) (w_t2 w) (w_o2 w) (w_p2 w) (w_co2 w)
       (w_tn w) (w_on w) (w_pn w) (w_cpn w) (w_h w)
       (level_of A (w_t1 w)) (level_of A (w_t2 w)) (level_of A (w_tn w)) \<and>
     reachable rt (w_t2 w) (w_o2 w) (w_p2 w) (w_co2 w) (w_tn w) (w_on w) (w_pn w) (w_cpn w) (w_h w)
       (transitive_closure rt (pt_conflict_graph (w_o1 w) (w_p1 w) (w_t1 w) (w_h w) ts))"
proof -
  have c: "cycle_labels_ok (w_o1 w) (w_p1 w) (w_o2 w) (w_p2 w) (w_co2 w) (w_on w) (w_pn w)
      (w_cpn w) (w_h w)"
    using assms(1) by (simp add: candidate_ok_def)
  have m: "mapping A (name (w_t1 w)) = Some (level_of A (w_t1 w))"
    "mapping A (name (w_t2 w)) = Some (level_of A (w_t2 w))"
    "mapping A (name (w_tn w)) = Some (level_of A (w_tn w))"
    using assms by (simp_all add: candidate_ok_def total_over_lookup)
  show ?thesis
    unfolding valid_and_reachable_def by (simp add: is_valid_cycle_ok [OF c m])
qed

lemma is_robust_mono:
  assumes wf: "wf_runtime rt" and ta: "total_over ts A" and tb: "total_over ts B"
    and le: "alloc_le ts A B" and ra: "is_robust rt ts A = Inr (True, r)"
  shows "is_robust rt ts B = Inr (True, None)"
proof (rule is_robust_all_rejected)
  fix w assume w: "w \<in> set (candidates rt ts)"
  then have c: "candidate_ok ts w" using wf by (rule candidates_ok [rotated])
  from ra w have "attempt rt ts A w = Inr None" by (simp add: is_robust_True_iff)
  then have na: "\<not> valid_and_reachable rt ts A w" by (rule attempt_None)
  have lv: "level_value (level_of A (w_t1 w)) \<le> level_value (level_of B (w_t1 w))"
    "level_value (level_of A (w_t2 w)) \<le> level_value (level_of B (w_t2 w))"
    "level_value (level_of A (w_tn w)) \<le> level_value (level_of B (w_tn w))"
    using c le by (simp_all add: candidate_ok_def alloc_le_def list_all_iff)
  have "\<not> valid_and_reachable rt ts B w"
    using na valid_p_mono [OF lv]
    by (auto simp: valid_and_reachable_total [OF c ta] valid_and_reachable_total [OF c tb])
  then show "attempt rt ts B w = Inr None" by (simp add: attempt_total [OF c tb])
qed

lemma ex_update_conflicts:
  "is_rw_conflicting ex_update ex_update" "is_ww_conflicting ex_update ex_update"
  "is_conflicting ex_update ex_update"
  by (simp_all add: is_conflicting_def is_rw_conflicting_def is_ww_conflicting_def
      ex_update_def fcard_pos)

lemma candidates_updater:
  "candidates reference_runtime \<lparr>templates = [ex_updater]\<rparr> =
  [\<lparr>w_t1 = ex_updater, w_o1 = ex_update, w_p1 = ex_update, w_h = 1, w_t2 = ex_updater,
    w_o2 = ex_update, w_p2 = ex_update, w_co2 = Conn_O, w_tn = ex_updater, w_on = ex_update,
    w_pn = ex_update, w_cpn = Conn_P\<rparr>]"
  by (simp add: candidates_def reference_runtime_def template_op_pairs_def ex_updater_def
      ex_update_conflicts)

lemma is_valid_cycle_updater:
  "is_valid_cycle ex_updater ex_update ex_update ex_updater ex_update ex_update Conn_O
     ex_updater ex_update ex_update Conn_P 1
     (uniform_alloc \<lparr>templates = [ex_updater]\<rparr> READ_COMMITTED) = Inr False"
proof -
  have l: "cycle_labels_ok ex_update ex_update ex_update ex_update Conn_O ex_update ex_update
      Conn_P 1"
    by (simp add: cycle_labels_ok_def labels_ok_def)
  have m: "mapping (uniform_alloc \<lparr>templates = [ex_updater]\<rparr> READ_COMMITTED) (name ex_updater)
      = Some READ_COMMITTED"
    by (simp add: uniform_alloc_def)
  show ?thesis
    unfolding is_valid_cycle_ok [OF l m m m]
    by (simp add: valid_p_def ex_updater_def conns_def
        connected_conflict_p_def ex_update_conflicts)
qed

lemma is_robust_updater:
  "is_robust reference_runtime \<lparr>templates = [ex_updater]\<rparr>
     (uniform_alloc \<lparr>templates = [ex_updater]\<rparr> READ_COMMITTED) = Inr (True, None)"
  by (simp add: is_robust_flat candidates_updater attempt_def is_valid_cycle_updater)

text \<open>
  C2. Robustness is monotone in the isolation levels. For allocations \<open>A\<close> and \<open>B\<close> that map
  every template of the template set, with \<open>A[t] \<le> B[t]\<close> for every template under
  RC < SI < SSI: if \<open>is_robust\<close> returns \<open>True\<close> under \<open>A\<close>, it returns \<open>True\<close> under \<open>B\<close>.
  Raising a level never breaks a robust allocation; read with \<open>A\<close> the lowered allocation,
  lowering a level never turns a non-robust allocation into a robust one.
\<close>

theorem robustness_monotone:
  assumes "wf_runtime rt" and "total_over ts A" and "total_over ts B"
    and "alloc_le ts A B" and "is_robust rt ts A = Inr (True, r)"
  shows "is_robust rt ts B = Inr (True, None)"
  using assms by (rule is_robust_mono)

theorem robustness_monotone_witness:
  "wf_runtime reference_runtime \<and>
   total_over \<lparr>templates = [ex_updater]\<rparr> (uniform_alloc \<lparr>templates = [ex_updater]\<rparr> READ_COMMITTED) \<and>
   total_over \<lparr>templates = [ex_updater]\<rparr> (uniform_alloc \<lparr>templates = [ex_updater]\<rparr> SNAPSHOT_ISOLATION) \<and>
   alloc_le \<lparr>templates = [ex_updater]\<rparr> (uniform_alloc \<lparr>templates = [ex_updater]\<rparr> READ_COMMITTED)
     (uniform_alloc \<lparr>templates = [ex_updater]\<rparr> SNAPSHOT_ISOLATION) \<and>
   is_robust reference_runtime \<lparr>templates = [ex_updater]\<rparr>
     (uniform_alloc \<lparr>templates = [ex_updater]\<rparr> READ_COMMITTED) = Inr (True, None) \<and>
   is_robust reference_runtime \<lparr>templates = [ex_updater]\<rparr>
     (uniform_alloc \<lparr>templates = [ex_updater]\<rparr> SNAPSHOT_ISOLATION) = Inr (True, None)"
proof -
  have ta: "total_over \<lparr>templates = [ex_updater]\<rparr>
      (uniform_alloc \<lparr>templates = [ex_updater]\<rparr> READ_COMMITTED)"
    by (simp add: total_over_def uniform_alloc_def)
  have tb: "total_over \<lparr>templates = [ex_updater]\<rparr>
      (uniform_alloc \<lparr>templates = [ex_updater]\<rparr> SNAPSHOT_ISOLATION)"
    by (simp add: total_over_def uniform_alloc_def)
  have le: "alloc_le \<lparr>templates = [ex_updater]\<rparr>
      (uniform_alloc \<lparr>templates = [ex_updater]\<rparr> READ_COMMITTED)
      (uniform_alloc \<lparr>templates = [ex_updater]\<rparr> SNAPSHOT_ISOLATION)"
    by (simp add: alloc_le_def level_of_def uniform_alloc_def)
  from robustness_monotone [OF wf_reference_runtime ta tb le is_robust_updater]
    wf_reference_runtime ta tb le is_robust_updater
  show ?thesis by simp
qed

section \<open>The optimizer returns a robust allocation\<close>

lemma fold_ssi_mapping:
  "(fold (\<lambda>t m. m(name t \<mapsto> SERIALIZABLE)) (tpls :: Template list) m0) n =
     (if n \<in> name ` set tpls then Some SERIALIZABLE else m0 n)"
  by (induction tpls arbitrary: m0) auto

lemma total_over_set_level: "total_over ts A \<Longrightarrow> total_over ts (set_level A t l)"
  by (simp add: total_over_def set_level_def list_all_iff)

lemma set_level_twice: "set_level (set_level A t l) t l' = set_level A t l'"
  by (simp add: set_level_def)

lemma alloc_le_set_level_ssi:
  "total_over ts A \<Longrightarrow> alloc_le ts A (set_level A t SERIALIZABLE)"
proof -
  have "level_value l \<le> 3" for l by (cases l) simp_all
  then show ?thesis
    by (simp add: alloc_le_def set_level_def level_of_def list_all_iff)
qed

lemma is_robust_total_Inr:
  assumes "wf_runtime rt" and "total_over ts A"
  shows "\<exists>b w. is_robust rt ts A = Inr (b, w)"
proof (cases "is_robust rt ts A")
  case (Inl e)
  with is_robust_err [OF assms(1) Inl] assms(2) show ?thesis by simp
next
  case (Inr v)
  then show ?thesis by (cases v) simp
qed

lemma is_robust_True_None: "is_robust rt ts A = Inr (True, w) \<Longrightarrow> w = None"
  by (simp add: is_robust_True_iff)

lemma optimal_loop_robust:
  assumes wf: "wf_runtime rt"
  shows "total_over ts A \<Longrightarrow> is_robust rt ts A = Inr (True, None) \<Longrightarrow>
     \<exists>B. optimal_loop rt ts tpls A = Inr B \<and> total_over ts B \<and>
         is_robust rt ts B = Inr (True, None)"
proof (induction tpls arbitrary: A)
  case Nil
  then show ?case by simp
next
  case (Cons t tpls)
  let ?A1 = "set_level A t SNAPSHOT_ISOLATION"
  let ?A2 = "set_level ?A1 t READ_COMMITTED"
  have t1: "total_over ts ?A1" and t2: "total_over ts ?A2"
    using Cons.prems(1) by (simp_all add: total_over_set_level)
  from is_robust_total_Inr [OF wf t1] obtain b1 w1 where r1: "is_robust rt ts ?A1 = Inr (b1, w1)"
    by blast
  show ?case
  proof (cases b1)
    case False
    have "is_robust rt ts (set_level A t SERIALIZABLE) = Inr (True, None)"
      by (rule is_robust_mono [OF wf Cons.prems(1) total_over_set_level [OF Cons.prems(1)]
            alloc_le_set_level_ssi [OF Cons.prems(1)] Cons.prems(2)])
    from Cons.IH [OF total_over_set_level [OF Cons.prems(1)] this] r1 False
    show ?thesis by (simp add: set_level_twice)
  next
    case True
    with r1 have rob1: "is_robust rt ts ?A1 = Inr (True, None)"
      by (simp add: is_robust_True_None)
    from is_robust_total_Inr [OF wf t2] obtain b2 w2 where
      r2: "is_robust rt ts ?A2 = Inr (b2, w2)" by blast
    show ?thesis
    proof (cases b2)
      case False
      from Cons.IH [OF t1 rob1] r1 r2 True False
      show ?thesis by (simp add: set_level_twice)
    next
      case b2: True
      with r2 have rob2: "is_robust rt ts ?A2 = Inr (True, None)"
        by (simp add: is_robust_True_None)
      from Cons.IH [OF t2 rob2] r1 r2 True b2
      show ?thesis by simp
    qed
  qed
qed

text \<open>
  C3. \<open>optimal_alloc\<close> returns an allocation, and the allocation it returns is robust:
  \<open>is_robust\<close> on it returns \<open>True\<close>. The loop starts from the all-SERIALIZABLE
  allocation and keeps a demotion only after \<open>is_robust\<close> has returned \<open>True\<close> on it.
\<close>

theorem optimal_alloc_robust:
  assumes "wf_runtime rt"
  shows "\<exists>A. optimal_alloc rt ts = Inr A \<and> is_robust rt ts A = Inr (True, None)"
proof -
  let ?A0 = "\<lparr>templateset = ts,
      mapping = fold (\<lambda>t m. m(name t \<mapsto> SERIALIZABLE)) (templates ts) Map.empty\<rparr>"
  have all: "list_all (\<lambda>t. mapping ?A0 (name t) = Some SERIALIZABLE) (templates ts)"
    by (simp add: fold_ssi_mapping list_all_iff)
  then have tot: "total_over ts ?A0" by (simp add: total_over_def list_all_iff)
  have rob: "is_robust rt ts ?A0 = Inr (True, None)"
    using assms all by (rule is_robust_all_ssi)
  from optimal_loop_robust [OF assms tot rob, of "templates ts"]
  show ?thesis by (auto simp: optimal_alloc_def)
qed

theorem optimal_alloc_robust_witness:
  "wf_runtime reference_runtime \<and>
   (\<exists>A. optimal_alloc reference_runtime \<lparr>templates = [ex_skew, ex_reader]\<rparr> = Inr A \<and>
        is_robust reference_runtime \<lparr>templates = [ex_skew, ex_reader]\<rparr> A = Inr (True, None))"
  using optimal_alloc_robust [OF wf_reference_runtime, of "\<lparr>templates = [ex_skew, ex_reader]\<rparr>"]
    wf_reference_runtime
  by simp

section \<open>The sanity assertion\<close>

lemma get_connectedness_sanity:
  "get_connectedness target_op op_o co op_p cp h = Inr r \<Longrightarrow> sanity h r"
  unfolding get_connectedness_def sanity_def Let_def
  by (simp split: if_splits)

lemma get_connectedness_labels:
  assumes "labels_ok op_o co op_p cp h"
  shows "\<exists>r. get_connectedness target_op op_o co op_p cp h = Inr r \<and> sanity h r"
  using get_connectedness_ok [OF assms, of target_op] get_connectedness_sanity by blast

lemma is_robust_no_assertion:
  assumes "wf_runtime rt"
  shows "is_robust rt ts A \<noteq> Inl AssertionError"
  using is_robust_err [OF assms, of ts A AssertionError] by auto

text \<open>
  C7. During an evaluation of \<open>is_robust\<close> the \<open>assert\<close> of \<open>get_connectedness\<close> never
  fails. \<open>is_valid_cycle\<close> calls \<open>get_connectedness\<close> in three forms, on the candidates
  of the enumeration only: for each candidate and each target operation, each form returns a
  set that meets the sanity condition (\<open>{N}\<close> or \<open>{O, P}\<close> when \<open>h = 1\<close>; one of \<open>{N}\<close>,
  \<open>{O}\<close>, \<open>{P}\<close> when \<open>h = 2\<close>), and \<open>is_robust\<close> never ends in an \<open>AssertionError\<close>.
\<close>

theorem get_connectedness_postcondition:
  assumes "wf_runtime rt"
  shows "is_robust rt ts A \<noteq> Inl AssertionError \<and>
     (\<forall>w \<in> set (candidates rt ts). \<forall>target_op.
        (\<exists>r. get_connectedness target_op (w_o1 w) Conn_O (w_p1 w) Conn_P (w_h w) = Inr r \<and>
             sanity (w_h w) r) \<and>
        (\<exists>r. get_connectedness target_op (w_o2 w) (w_co2 w) (w_p2 w) Conn_O (w_h w) = Inr r \<and>
             sanity (w_h w) r) \<and>
        (\<exists>r. get_connectedness target_op (w_on w) Conn_P (w_pn w) (w_cpn w) (w_h w) = Inr r \<and>
             sanity (w_h w) r))"
proof (intro conjI ballI allI)
  show "is_robust rt ts A \<noteq> Inl AssertionError"
    using assms by (rule is_robust_no_assertion)
next
  fix w target_op
  assume "w \<in> set (candidates rt ts)"
  then have "candidate_ok ts w" using assms by (rule candidates_ok [rotated])
  then have l: "labels_ok (w_o1 w) Conn_O (w_p1 w) Conn_P (w_h w)"
    "labels_ok (w_o2 w) (w_co2 w) (w_p2 w) Conn_O (w_h w)"
    "labels_ok (w_on w) Conn_P (w_pn w) (w_cpn w) (w_h w)"
    by (simp_all add: candidate_ok_def cycle_labels_ok_def)
  show "\<exists>r. get_connectedness target_op (w_o1 w) Conn_O (w_p1 w) Conn_P (w_h w) = Inr r \<and>
      sanity (w_h w) r"
    by (rule get_connectedness_labels [OF l(1)])
  show "\<exists>r. get_connectedness target_op (w_o2 w) (w_co2 w) (w_p2 w) Conn_O (w_h w) = Inr r \<and>
      sanity (w_h w) r"
    by (rule get_connectedness_labels [OF l(2)])
  show "\<exists>r. get_connectedness target_op (w_on w) Conn_P (w_pn w) (w_cpn w) (w_h w) = Inr r \<and>
      sanity (w_h w) r"
    by (rule get_connectedness_labels [OF l(3)])
qed

theorem get_connectedness_postcondition_witness:
  "wf_runtime reference_runtime \<and>
   is_robust reference_runtime \<lparr>templates = [ex_updater]\<rparr>
     (uniform_alloc \<lparr>templates = []\<rparr> READ_COMMITTED) \<noteq> Inl AssertionError \<and>
   (\<exists>r. get_connectedness ex_update ex_update Conn_O ex_update Conn_P 1 = Inr r \<and> sanity 1 r) \<and>
   (\<exists>r. get_connectedness ex_update ex_update Conn_O ex_update Conn_O 1 = Inr r \<and> sanity 1 r) \<and>
   (\<exists>r. get_connectedness ex_update ex_update Conn_P ex_update Conn_P 1 = Inr r \<and> sanity 1 r)"
  using get_connectedness_postcondition [OF wf_reference_runtime,
      of "\<lparr>templates = [ex_updater]\<rparr>" "uniform_alloc \<lparr>templates = []\<rparr> READ_COMMITTED"]
    wf_reference_runtime
  by (simp add: candidates_updater)

section \<open>A non-robust example, and the first witness\<close>

lemma connected_conflict_none:
  "(\<And>op2. \<not> confl op1 op2) \<Longrightarrow>
   connected_conflict confl op1 c ops op_o co op_p cp h = Inr False"
  by (induction ops) simp_all

lemma ex_blind_conflicts:
  "is_rw_conflicting ex_read ex_blind" "\<not> is_rw_conflicting ex_blind b"
  "is_conflicting ex_blind ex_write" "is_conflicting ex_blind ex_read"
  "\<not> is_rw_conflicting a ex_read" "\<not> is_ww_conflicting ex_read b"
  "ex_read \<noteq> ex_blind" "ex_blind \<noteq> ex_read" "ex_write \<noteq> ex_blind" "ex_blind \<noteq> ex_write"
  by (simp_all add: is_conflicting_def is_rw_conflicting_def is_wr_conflicting_def
      is_ww_conflicting_def ex_read_def ex_write_def ex_blind_def fcard_pos)

lemma skew_same_anchor_invalid:
  assumes "mapping A ''Skew'' = Some READ_COMMITTED"
  shows "is_valid_cycle ex_skew ex_read ex_read t2 o2 p2 co2 tn on pn cpn 1 A = Inr False"
proof -
  have g: "get_connectedness ex_read ex_read Conn_O ex_read Conn_P 1 = Inr {Conn_O, Conn_P}"
    by (auto simp add: get_connectedness_ok labels_ok_def conns_def)
  have l: "lookup A ex_skew = Inr READ_COMMITTED"
    using assms by (simp add: lookup_def ex_skew_def)
  have s: "ww_scan (operations ex_skew) ex_skew ex_read ex_read t2 o2 p2 co2 tn on pn cpn 1 A
      = Inr True"
    by (simp add: ex_skew_def g connected_conflict_none ex_blind_conflicts l [unfolded ex_skew_def])
  have c: "condition5 ex_skew ex_read ex_read on A = Inr False"
    by (simp add: condition5_def ex_blind_conflicts l) (simp add: ex_skew_def)
  show ?thesis
    unfolding is_valid_cycle_def by (simp add: s c)
qed

lemma skew_writer_valid:
  assumes "mapping A ''Skew'' = Some READ_COMMITTED" and "mapping A ''Writer'' = Some l"
  shows "is_valid_cycle ex_skew ex_read ex_write ex_writer ex_blind ex_blind Conn_O
     ex_writer ex_blind ex_blind Conn_P 1 A = Inr True"
proof -
  have lab: "cycle_labels_ok ex_read ex_write ex_blind ex_blind Conn_O ex_blind ex_blind Conn_P 1"
    by (simp add: cycle_labels_ok_def labels_ok_def)
  have m1: "mapping A (name ex_skew) = Some READ_COMMITTED"
    using assms(1) by (simp add: ex_skew_def)
  have m2: "mapping A (name ex_writer) = Some l"
    using assms(2) by (simp add: ex_writer_def)
  show ?thesis
    unfolding is_valid_cycle_ok [OF lab m1 m2 m2]
    by (simp add: valid_p_def ex_skew_def ex_writer_def conns_def connected_conflict_p_def
        ex_blind_conflicts ex_conflicts)
qed

lemma ex_templates_distinct:
  "ex_writer \<noteq> ex_skew" "ex_skew \<noteq> ex_writer"
  by (simp_all add: ex_writer_def ex_skew_def)

lemma ex_variables:
  "variable ex_read = ''X''" "variable ex_write = ''Y''" "variable ex_blind = ''Z''"
  by (simp_all add: ex_read_def ex_write_def ex_blind_def)

lemma uniform_alloc_writer_skew:
  "mapping (uniform_alloc \<lparr>templates = [ex_writer, ex_skew]\<rparr> l) ''Skew'' = Some l"
  "mapping (uniform_alloc \<lparr>templates = [ex_writer, ex_skew]\<rparr> l) ''Writer'' = Some l"
  by (simp_all add: uniform_alloc_def ex_writer_def ex_skew_def)


lemma is_robust_False_first:
  assumes "is_robust rt ts A = Inr (False, r)"
  shows "\<exists>pre w post. r = Some w \<and> candidates rt ts = pre @ w # post \<and>
     valid_and_reachable rt ts A w \<and> (\<forall>c \<in> set pre. \<not> valid_and_reachable rt ts A c)"
proof -
  from assms obtain w where r: "r = Some w"
    and f: "for_loop (candidates rt ts) (attempt rt ts A) = Inr (Some w)"
    by (auto simp: is_robust_flat split: sum.splits option.splits)
  from for_loop_Some_split [OF f] obtain pre x post where
    c: "candidates rt ts = pre @ x # post"
    and p: "\<forall>y \<in> set pre. attempt rt ts A y = Inr None"
    and x: "attempt rt ts A x = Inr (Some w)"
    by blast
  from x have "w = x" "valid_and_reachable rt ts A x" by (simp_all add: attempt_Some)
  moreover from p have "\<forall>c \<in> set pre. \<not> valid_and_reachable rt ts A c"
    by (blast dest: attempt_None)
  ultimately show ?thesis using r c by blast
qed



subsection \<open>The witness depends on the order of iteration\<close>








section \<open>Condition (5) when the two anchors coincide\<close>

lemma skew_same_anchor_scan:
  assumes "mapping A ''Skew'' = Some READ_COMMITTED"
  shows "ww_scan (operations ex_skew) ex_skew ex_read ex_read t2 o2 p2 co2 tn on pn cpn 1 A
      = Inr True"
proof -
  have g: "get_connectedness ex_read ex_read Conn_O ex_read Conn_P 1 = Inr {Conn_O, Conn_P}"
    by (auto simp add: get_connectedness_ok labels_ok_def conns_def)
  have l: "lookup A ex_skew = Inr READ_COMMITTED"
    using assms by (simp add: lookup_def ex_skew_def)
  show ?thesis
    by (simp add: ex_skew_def g connected_conflict_none ex_blind_conflicts l [unfolded ex_skew_def])
qed

lemma skew_same_anchor_condition5:
  assumes "mapping A ''Skew'' = Some READ_COMMITTED"
  shows "condition5 ex_skew ex_read ex_read on A = Inr False"
proof -
  have l: "lookup A ex_skew = Inr READ_COMMITTED"
    using assms by (simp add: lookup_def ex_skew_def)
  show ?thesis
    by (simp add: condition5_def ex_blind_conflicts l) (simp add: ex_skew_def)
qed

lemma p1_before_o1_same: "p1 \<in> set ops \<Longrightarrow> p1_before_o1 ops p1 p1"
  by (induction ops) auto

lemma condition5_same_anchor:
  assumes "mapping A (name t1) = Some READ_COMMITTED" and "\<not> is_rw_conflicting on p1"
    and "p1 \<in> set (operations t1)"
  shows "condition5 t1 p1 p1 on A = Inr False"
  using assms by (simp add: condition5_def lookup_Some p1_before_o1_same)

lemma is_valid_cycle_condition5:
  assumes "condition5 t1 o1 p1 on A = Inr False"
  shows "is_valid_cycle t1 o1 p1 t2 o2 p2 co2 tn on pn cpn h A \<noteq> Inr True"
  using assms unfolding is_valid_cycle_def
  by (auto simp: bind_err_def simp del: all_serializable.simps split: sum.splits if_splits)

text \<open>
  C4, as the code has it. When \<open>allocation[t1]\<close> is READ_COMMITTED, \<open>on\<close> is not
  rw-conflicting with \<open>p1\<close>, and \<open>p1 == o1\<close> is an operation of \<open>t1\<close>, the scan of
  condition (5) meets \<open>p1\<close> before it tests for \<open>o1\<close> and rejects: the condition returns
  \<open>False\<close>, and \<open>is_valid_cycle\<close> does not return \<open>True\<close>.
\<close>

theorem condition5_same_anchor_rejects:
  assumes "mapping A (name t1) = Some READ_COMMITTED" and "\<not> is_rw_conflicting on p1"
    and "p1 = o1" and "o1 \<in> set (operations t1)"
  shows "p1_before_o1 (operations t1) o1 p1 \<and>
     condition5 t1 o1 p1 on A = Inr False \<and>
     is_valid_cycle t1 o1 p1 t2 o2 p2 co2 tn on pn cpn h A \<noteq> Inr True"
proof -
  have c: "condition5 t1 o1 p1 on A = Inr False"
    using assms condition5_same_anchor [of A t1 on p1] by simp
  from assms c is_valid_cycle_condition5 [OF c] show ?thesis
    by (simp add: p1_before_o1_same)
qed

theorem condition5_same_anchor_rejects_witness:
  "mapping (uniform_alloc \<lparr>templates = [ex_writer, ex_skew]\<rparr> READ_COMMITTED) (name ex_skew)
     = Some READ_COMMITTED \<and>
   \<not> is_rw_conflicting ex_blind ex_read \<and> ex_read \<in> set (operations ex_skew) \<and>
   p1_before_o1 (operations ex_skew) ex_read ex_read \<and>
   condition5 ex_skew ex_read ex_read ex_blind
     (uniform_alloc \<lparr>templates = [ex_writer, ex_skew]\<rparr> READ_COMMITTED) = Inr False \<and>
   is_valid_cycle ex_skew ex_read ex_read ex_writer ex_blind ex_blind Conn_O
     ex_writer ex_blind ex_blind Conn_P 1
     (uniform_alloc \<lparr>templates = [ex_writer, ex_skew]\<rparr> READ_COMMITTED) \<noteq> Inr True"
proof -
  have a: "mapping (uniform_alloc \<lparr>templates = [ex_writer, ex_skew]\<rparr> READ_COMMITTED)
      (name ex_skew) = Some READ_COMMITTED"
    by (simp add: uniform_alloc_def ex_writer_def ex_skew_def)
  have b: "\<not> is_rw_conflicting ex_blind ex_read" by (simp add: ex_blind_conflicts)
  have c: "ex_read \<in> set (operations ex_skew)" by (simp add: ex_skew_def)
  from condition5_same_anchor_rejects [OF a b refl c] a b c show ?thesis by simp
qed

text \<open>
  The claim C4 as the specification states it fails at the first candidate that
  \<open>is_robust\<close> validates for the templates \<open>Writer\<close> and \<open>Skew\<close> under READ_COMMITTED:
  conditions (2) to (4) pass, \<open>on\<close> is not rw-conflicting with \<open>p1\<close>, \<open>p1 == o1\<close>, and
  condition (5) returns \<open>False\<close>.
\<close>

theorem condition5_same_anchor_counterexample:
  "mapping (uniform_alloc \<lparr>templates = [ex_writer, ex_skew]\<rparr> READ_COMMITTED) (name ex_skew)
     = Some READ_COMMITTED \<and>
   \<not> is_rw_conflicting ex_blind ex_read \<and>
   ww_scan (operations ex_skew) ex_skew ex_read ex_read ex_writer ex_blind ex_blind Conn_O
     ex_writer ex_blind ex_blind Conn_P 1
     (uniform_alloc \<lparr>templates = [ex_writer, ex_skew]\<rparr> READ_COMMITTED) = Inr True \<and>
   is_rw_conflicting ex_read ex_blind \<and>
   p1_before_o1 (operations ex_skew) ex_read ex_read \<and>
   condition5 ex_skew ex_read ex_read ex_blind
     (uniform_alloc \<lparr>templates = [ex_writer, ex_skew]\<rparr> READ_COMMITTED) = Inr False \<and>
   is_valid_cycle ex_skew ex_read ex_read ex_writer ex_blind ex_blind Conn_O
     ex_writer ex_blind ex_blind Conn_P 1
     (uniform_alloc \<lparr>templates = [ex_writer, ex_skew]\<rparr> READ_COMMITTED) = Inr False"
  by (simp add: skew_same_anchor_scan [OF uniform_alloc_writer_skew(1)]
      skew_same_anchor_condition5 [OF uniform_alloc_writer_skew(1)]
      skew_same_anchor_invalid [OF uniform_alloc_writer_skew(1)]
      uniform_alloc_writer_skew ex_blind_conflicts
      ex_skew_def [THEN arg_cong, of name])
     (simp add: ex_skew_def)

section \<open>Allocations that do not cover the template set\<close>

lemma skew_same_anchor_unmapped:
  assumes "mapping A ''Skew'' = None"
  shows "is_valid_cycle ex_skew ex_read ex_read t2 o2 p2 co2 tn on pn cpn 1 A = Inl KeyError"
proof -
  have g: "get_connectedness ex_read ex_read Conn_O ex_read Conn_P 1 = Inr {Conn_O, Conn_P}"
    by (auto simp add: get_connectedness_ok labels_ok_def conns_def)
  have l: "lookup A ex_skew = Inl KeyError"
    using assms by (simp add: lookup_def ex_skew_def)
  have s: "ww_scan (operations ex_skew) ex_skew ex_read ex_read t2 o2 p2 co2 tn on pn cpn 1 A
      = Inl KeyError"
    by (simp add: ex_skew_def g connected_conflict_none ex_blind_conflicts l [unfolded ex_skew_def])
  show ?thesis
    unfolding is_valid_cycle_def by (simp add: s)
qed

lemma ex_reader_facts:
  "ex_reader \<noteq> ex_skew" "ex_skew \<noteq> ex_reader" "ex_reader \<noteq> ex_writer" "ex_writer \<noteq> ex_reader"
  "operations ex_reader = [ex_read]" "name ex_reader = ''Reader''"
  by (simp_all add: ex_writer_def ex_skew_def ex_reader_def)

lemma is_robust_unmapped_skew:
  "is_robust reference_runtime \<lparr>templates = [ex_writer, ex_skew]\<rparr>
     \<lparr>templateset = \<lparr>templates = [ex_writer, ex_skew]\<rparr>, mapping = Map.empty\<rparr> = Inl KeyError"
  unfolding is_robust_def
  by (simp add: reference_runtime_def template_op_pairs_def ex_templates_distinct
      ex_variables ex_conflicts ex_blind_conflicts
      skew_same_anchor_unmapped
      ex_writer_def [THEN arg_cong, of operations] ex_skew_def [THEN arg_cong, of operations]
      ex_writer_def [THEN arg_cong, of name] ex_skew_def [THEN arg_cong, of name])

lemma is_robust_unmapped_reader:
  "is_robust reference_runtime \<lparr>templates = [ex_writer, ex_skew, ex_reader]\<rparr>
     (uniform_alloc \<lparr>templates = [ex_writer, ex_skew]\<rparr> READ_COMMITTED) =
   Inr (False, Some \<lparr>w_t1 = ex_skew, w_o1 = ex_read, w_p1 = ex_write, w_h = 1,
     w_t2 = ex_writer, w_o2 = ex_blind, w_p2 = ex_blind, w_co2 = Conn_O,
     w_tn = ex_writer, w_on = ex_blind, w_pn = ex_blind, w_cpn = Conn_P\<rparr>)"
  unfolding is_robust_def
  by (simp add: reference_runtime_def template_op_pairs_def ex_templates_distinct
      ex_variables ex_conflicts ex_blind_conflicts ex_reader_facts
      skew_same_anchor_invalid [OF uniform_alloc_writer_skew(1)]
      skew_writer_valid [OF uniform_alloc_writer_skew]
      reachable_def
      ex_writer_def [THEN arg_cong, of operations] ex_skew_def [THEN arg_cong, of operations]
      ex_writer_def [THEN arg_cong, of name] ex_skew_def [THEN arg_cong, of name])

lemma is_robust_empty_mapping_reader:
  "is_robust reference_runtime \<lparr>templates = [ex_reader]\<rparr>
     \<lparr>templateset = \<lparr>templates = [ex_reader]\<rparr>, mapping = Map.empty\<rparr> = Inr (True, None)"
  unfolding is_robust_def
  by (simp add: reference_runtime_def template_op_pairs_def ex_conflicts ex_reader_facts)

lemma is_valid_cycle_True_mapped:
  assumes "is_valid_cycle t1 o1 p1 t2 o2 p2 co2 tn on pn cpn h A = Inr True"
  shows "mapping A (name t1) \<noteq> None"
proof
  assume "mapping A (name t1) = None"
  then have "all_serializable A [t1, t2, tn] = Inl KeyError"
    by (simp add: lookup_None)
  with assms show False
    unfolding is_valid_cycle_def
    by (auto simp: bind_err_def simp del: all_serializable.simps split: sum.splits if_splits)
qed

text \<open>
  C8, as the code has it. \<open>is_robust\<close> makes no check of the mapping's domain. When it
  terminates with an error, the error is the \<open>KeyError\<close> of a lookup \<open>alloc.mapping[t]\<close> and
  some template of the template set is missing from the mapping; and when it returns
  \<open>False\<close> with a witness, the witness's template \<open>t1\<close> is in the mapping.
\<close>

theorem is_robust_error_only_if_unmapped:
  assumes "wf_runtime rt"
  shows "(is_robust rt ts A = Inl e \<longrightarrow>
            e = KeyError \<and> (\<exists>t \<in> set (templates ts). mapping A (name t) = None)) \<and>
         (is_robust rt ts A = Inr (False, Some w) \<longrightarrow> mapping A (name (w_t1 w)) \<noteq> None)"
proof (intro conjI impI)
  assume "is_robust rt ts A = Inl e"
  from is_robust_err [OF assms this]
  show "e = KeyError" and "\<exists>t \<in> set (templates ts). mapping A (name t) = None"
    by (auto simp: total_over_def list_all_iff)
next
  assume "is_robust rt ts A = Inr (False, Some w)"
  from is_robust_False_first [OF this] have "valid_and_reachable rt ts A w" by auto
  then show "mapping A (name (w_t1 w)) \<noteq> None"
    unfolding valid_and_reachable_def by (blast dest: is_valid_cycle_True_mapped)
qed

theorem is_robust_error_only_if_unmapped_witness:
  "wf_runtime reference_runtime \<and>
   is_robust reference_runtime \<lparr>templates = [ex_writer, ex_skew]\<rparr>
     \<lparr>templateset = \<lparr>templates = [ex_writer, ex_skew]\<rparr>, mapping = Map.empty\<rparr> = Inl KeyError \<and>
   (\<exists>t. t \<in> set (templates \<lparr>templates = [ex_writer, ex_skew]\<rparr>) \<and>
        mapping \<lparr>templateset = \<lparr>templates = [ex_writer, ex_skew]\<rparr>, mapping = Map.empty\<rparr> (name t)
          = None) \<and>
   is_robust reference_runtime \<lparr>templates = [ex_writer, ex_skew, ex_reader]\<rparr>
     (uniform_alloc \<lparr>templates = [ex_writer, ex_skew]\<rparr> READ_COMMITTED) =
   Inr (False, Some \<lparr>w_t1 = ex_skew, w_o1 = ex_read, w_p1 = ex_write, w_h = 1,
     w_t2 = ex_writer, w_o2 = ex_blind, w_p2 = ex_blind, w_co2 = Conn_O,
     w_tn = ex_writer, w_on = ex_blind, w_pn = ex_blind, w_cpn = Conn_P\<rparr>) \<and>
   mapping (uniform_alloc \<lparr>templates = [ex_writer, ex_skew]\<rparr> READ_COMMITTED) (name ex_skew)
     \<noteq> None"
proof -
  note a = is_robust_error_only_if_unmapped [OF wf_reference_runtime,
      of "\<lparr>templates = [ex_writer, ex_skew]\<rparr>"
         "\<lparr>templateset = \<lparr>templates = [ex_writer, ex_skew]\<rparr>, mapping = Map.empty\<rparr>" KeyError]
  note b = is_robust_error_only_if_unmapped [OF wf_reference_runtime,
      of "\<lparr>templates = [ex_writer, ex_skew, ex_reader]\<rparr>"
         "uniform_alloc \<lparr>templates = [ex_writer, ex_skew]\<rparr> READ_COMMITTED" _
         "\<lparr>w_t1 = ex_skew, w_o1 = ex_read, w_p1 = ex_write, w_h = 1,
           w_t2 = ex_writer, w_o2 = ex_blind, w_p2 = ex_blind, w_co2 = Conn_O,
           w_tn = ex_writer, w_on = ex_blind, w_pn = ex_blind, w_cpn = Conn_P\<rparr>"]
  from a is_robust_unmapped_skew
  have 1: "\<exists>t. t \<in> set (templates \<lparr>templates = [ex_writer, ex_skew]\<rparr>) \<and>
      mapping \<lparr>templateset = \<lparr>templates = [ex_writer, ex_skew]\<rparr>, mapping = Map.empty\<rparr> (name t)
        = None"
    by blast
  from b is_robust_unmapped_reader
  have 2: "mapping (uniform_alloc \<lparr>templates = [ex_writer, ex_skew]\<rparr> READ_COMMITTED)
      (name ex_skew) \<noteq> None"
    by simp
  from wf_reference_runtime is_robust_unmapped_skew 1 is_robust_unmapped_reader 2
  show ?thesis by blast
qed

text \<open>
  The claim C8 as the specification states it fails: with the template \<open>Reader\<close> of the
  template set missing from the mapping, \<open>is_robust\<close> returns a normal result, \<open>False\<close>
  with a witness; and with an empty mapping it returns \<open>True\<close> for the template set that
  holds \<open>Reader\<close> alone.
\<close>

theorem is_robust_ill_domained_counterexample:
  "ex_reader \<in> set (templates \<lparr>templates = [ex_writer, ex_skew, ex_reader]\<rparr>) \<and>
   name ex_reader \<notin> dom (mapping (uniform_alloc \<lparr>templates = [ex_writer, ex_skew]\<rparr> READ_COMMITTED)) \<and>
   is_robust reference_runtime \<lparr>templates = [ex_writer, ex_skew, ex_reader]\<rparr>
     (uniform_alloc \<lparr>templates = [ex_writer, ex_skew]\<rparr> READ_COMMITTED) =
   Inr (False, Some \<lparr>w_t1 = ex_skew, w_o1 = ex_read, w_p1 = ex_write, w_h = 1,
     w_t2 = ex_writer, w_o2 = ex_blind, w_p2 = ex_blind, w_co2 = Conn_O,
     w_tn = ex_writer, w_on = ex_blind, w_pn = ex_blind, w_cpn = Conn_P\<rparr>) \<and>
   dom (mapping \<lparr>templateset = \<lparr>templates = [ex_reader]\<rparr>, mapping = Map.empty\<rparr>) \<noteq>
     name ` set (templates \<lparr>templates = [ex_reader]\<rparr>) \<and>
   is_robust reference_runtime \<lparr>templates = [ex_reader]\<rparr>
     \<lparr>templateset = \<lparr>templates = [ex_reader]\<rparr>, mapping = Map.empty\<rparr> = Inr (True, None)"
  by (simp add: is_robust_unmapped_reader is_robust_empty_mapping_reader)
     (simp add: uniform_alloc_def ex_reader_def ex_writer_def ex_skew_def dom_def)

end
